theory Spec2Isabelle
  imports Main "HOL-Library.Word" "HOL-Library.Log_Nat"
begin

section \<open>Storage: the tables of migrations/init.sql\<close>

text \<open>
  Primary keys are UUIDs (128-bit values) and timestamps are counted in milliseconds since
  the epoch, the resolution of a JavaScript \<open>Date\<close>. A table is the list of its rows in
  storage order, so that \<open>rows[0]\<close> of a query is the head of the filtered list. The
  handlers of server.js never write NULL into a column, so columns hold plain values.
\<close>

type_synonym uuid = "128 word"

record user_row =
  u_id :: uuid
  u_name :: string
  u_email :: string

record event_row =
  e_id :: uuid
  e_title :: string
  e_datetime :: int
  e_location :: string
  e_capacity :: int
  e_created_at :: int

record registration_row =
  r_id :: uuid
  r_user_id :: uuid
  r_event_id :: uuid
  r_registered_at :: int

record db =
  users :: "user_row list"
  events :: "event_row list"
  registrations :: "registration_row list"

text \<open>Errors raised by the database; the driver turns them into exceptions.\<close>

datatype dberror =
    UniqueViolation string
  | ForeignKeyViolation string
  | UndefinedColumn string
  | InvalidUuidText string

text \<open>The text between double quotes (character 0x22), as PostgreSQL prints a name.\<close>

definition quoted :: "string \<Rightarrow> string" where
  "quoted c = CHR 0x22 # c @ [CHR 0x22]"

fun message :: "dberror \<Rightarrow> string" where
  "message (UniqueViolation c) =
     ''duplicate key value violates unique constraint '' @ quoted c"
| "message (ForeignKeyViolation c) =
     ''insert or update on table '' @ quoted ''registrations'' @
     '' violates foreign key constraint '' @ quoted c"
| "message (UndefinedColumn c) = ''column '' @ quoted c @ '' does not exist''"
| "message (InvalidUuidText source) = ''invalid input syntax for type uuid: '' @ quoted source"

text \<open>
  The id of a request is the text of the path. A query that compares it with a UUID column
  makes the database read it as a UUID: an optional opening brace, sixteen bytes of two
  hexadecimal digits each, an optional hyphen after every second byte but the last, the
  closing brace if there was an opening one, and nothing else. Any other text is an error
  of the query.
\<close>

definition hex_value :: "char \<Rightarrow> nat option" where
  "hex_value c = map_of (zip ''0123456789abcdefABCDEF'' ([0..<16] @ [10..<16])) c"

text \<open>Reads the last \<open>k\<close> of the sixteen bytes; byte \<open>i\<close> is the one read with \<open>k = 16 - i\<close>.\<close>

fun uuid_bytes :: "nat \<Rightarrow> string \<Rightarrow> (nat list \<times> string) option" where
  "uuid_bytes 0 src = Some ([], src)"
| "uuid_bytes (Suc k) src =
     (case src of
        a # b # rest \<Rightarrow>
          (case (hex_value a, hex_value b) of
             (Some h, Some l) \<Rightarrow>
               let i = 15 - k;
                   rest' = (case rest of
                              c # after \<Rightarrow>
                                if c = CHR ''-'' \<and> odd i \<and> i < 15 then after else rest
                            | [] \<Rightarrow> rest)
               in (case uuid_bytes k rest' of
                     Some (bytes, r) \<Rightarrow> Some ((16 * h + l) # bytes, r)
                   | None \<Rightarrow> None)
           | _ \<Rightarrow> None)
      | _ \<Rightarrow> None)"

definition uuid_of_bytes :: "nat list \<Rightarrow> uuid" where
  "uuid_of_bytes bytes = foldl (\<lambda>w b. w * 256 + of_nat b) 0 bytes"

definition uuid_in :: "string \<Rightarrow> uuid option" where
  "uuid_in source =
     (let braces = (case source of c # _ \<Rightarrow> c = CHR ''{'' | [] \<Rightarrow> False);
          src = (if braces then tl source else source)
      in case uuid_bytes 16 src of
           None \<Rightarrow> None
         | Some (bytes, r) \<Rightarrow>
             if r = (if braces then ''}'' else []) then Some (uuid_of_bytes bytes) else None)"

text \<open>
  \<open>INSERT INTO users (name,email) VALUES ($1,$2) RETURNING id\<close>. The id is the value
  that \<open>DEFAULT uuid_generate_v4()\<close> produces, an input of the model; \<open>PRIMARY KEY\<close> and
  \<open>email TEXT UNIQUE\<close> reject a row that repeats a key.
\<close>

definition insert_user :: "uuid \<Rightarrow> string \<Rightarrow> string \<Rightarrow> db \<Rightarrow> dberror + db" where
  "insert_user uid name email s =
     (if uid \<in> set (map u_id (users s)) then Inl (UniqueViolation ''users_pkey'')
      else if email \<in> set (map u_email (users s)) then Inl (UniqueViolation ''users_email_key'')
      else Inr (s\<lparr>users := users s @ [\<lparr>u_id = uid, u_name = name, u_email = email\<rparr>]\<rparr>))"

text \<open>
  \<open>INSERT INTO registrations (user_id,event_id) VALUES ($1,$2)\<close>, with the generated id
  and \<open>registered_at DEFAULT now()\<close> as inputs, under \<open>PRIMARY KEY\<close>,
  \<open>UNIQUE(user_id, event_id)\<close> and the two \<open>REFERENCES\<close> constraints.
\<close>

definition insert_registration :: "uuid \<Rightarrow> uuid \<Rightarrow> uuid \<Rightarrow> int \<Rightarrow> db \<Rightarrow> dberror + db" where
  "insert_registration rid userId eventId t s =
     (if rid \<in> set (map r_id (registrations s))
        then Inl (UniqueViolation ''registrations_pkey'')
      else if (userId, eventId) \<in> set (map (\<lambda>r. (r_user_id r, r_event_id r)) (registrations s))
        then Inl (UniqueViolation ''registrations_user_id_event_id_key'')
      else if userId \<notin> set (map u_id (users s))
        then Inl (ForeignKeyViolation ''registrations_user_id_fkey'')
      else if eventId \<notin> set (map e_id (events s))
        then Inl (ForeignKeyViolation ''registrations_event_id_fkey'')
      else Inr (s\<lparr>registrations := registrations s @
                  [\<lparr>r_id = rid, r_user_id = userId, r_event_id = eventId,
                    r_registered_at = t\<rparr>]\<rparr>))"

text \<open>
  A transaction works on a copy of the state read at \<open>BEGIN\<close>: \<open>ROLLBACK\<close> keeps the
  state of \<open>BEGIN\<close>, \<open>COMMIT\<close> stores the working copy.
\<close>

definition rollback :: "db \<Rightarrow> db \<Rightarrow> db" where
  "rollback begun working = begun"

definition commit :: "db \<Rightarrow> db \<Rightarrow> db" where
  "commit begun working = working"

section \<open>Responses\<close>

datatype json =
    JStr string
  | JNum int
  | JUuid uuid
  | JTime int
  | JObj "(string \<times> json) list"
  | JArr "json list"

text \<open>\<open>res.status(n).json(body)\<close>; \<open>JUuid u\<close> is the JSON string that spells the UUID \<open>u\<close>.\<close>

datatype response = Response nat json

fun status :: "response \<Rightarrow> nat" where
  "status (Response st v) = st"

definition event_not_found :: response where
  "event_not_found = Response 404 (JObj [(''error'', JStr ''Event not found'')])"

definition past_event :: response where
  "past_event = Response 400 (JObj [(''error'', JStr ''Cannot register for past event'')])"

definition event_full :: response where
  "event_full = Response 400 (JObj [(''error'', JStr ''Event is full'')])"

definition already_registered :: response where
  "already_registered = Response 400 (JObj [(''error'', JStr ''Already registered'')])"

definition registration_successful :: response where
  "registration_successful = Response 201 (JObj [(''message'', JStr ''Registration successful'')])"

definition user_not_found :: response where
  "user_not_found = Response 404 (JObj [(''error'', JStr ''User not found'')])"

definition not_registered :: response where
  "not_registered = Response 400 (JObj [(''error'', JStr ''User not registered for this event'')])"

definition registration_cancelled :: response where
  "registration_cancelled = Response 200 (JObj [(''message'', JStr ''Registration cancelled'')])"

text \<open>The \<open>catch\<close> block: \<open>res.status(500).json({ error: err.message })\<close>.\<close>

definition storage_failure :: "dberror \<Rightarrow> response" where
  "storage_failure err = Response 500 (JObj [(''error'', JStr (message err))])"

section \<open>POST /api/events/:id/register\<close>

text \<open>
  The handler's body, lines 83 to 143, in two steps: \<open>register\<close> is the transaction for an
  id that the database has read as the UUID \<open>eventId\<close>, and \<open>register_handler\<close> below is
  the handler on the id text of the request. The validators of the route run before the
  handler; \<open>isInt({ min: 1 })\<close> lets the text of a positive integer through.
  What the handler reads from outside the request and the store: the server clock
  (\<open>new Date()\<close>), the database clock (\<open>now()\<close>) and the two values that
  \<open>uuid_generate_v4()\<close> would produce for a new user and a new registration.
\<close>

record env =
  clock :: int
  db_now :: int
  gen_user_id :: uuid
  gen_reg_id :: uuid

text \<open>
  \<open>SELECT COUNT(*)::int AS c FROM registrations WHERE event_id=$1\<close>: the number of rows,
  which the cast to a 32-bit integer leaves as it is below \<open>2^31\<close>.
\<close>

definition reg_count :: "uuid \<Rightarrow> db \<Rightarrow> int" where
  "reg_count eventId s = int (length (filter (\<lambda>r. r_event_id r = eventId) (registrations s)))"

text \<open>
  Lines 110 to 120: the user with that email, or a new one. The result is the user's id
  and the working state, or the error of the failed insert.
\<close>

definition resolve_user :: "env \<Rightarrow> string \<Rightarrow> string \<Rightarrow> db \<Rightarrow> dberror + (uuid \<times> db)" where
  "resolve_user en name email s =
     (case filter (\<lambda>u. u_email u = email) (users s) of
        [] \<Rightarrow> (case insert_user (gen_user_id en) name email s of
                 Inl err \<Rightarrow> Inl err
               | Inr s1 \<Rightarrow> Inr (gen_user_id en, s1))
      | u # _ \<Rightarrow> Inr (u_id u, s))"

definition register :: "env \<Rightarrow> uuid \<Rightarrow> string \<Rightarrow> string \<Rightarrow> db \<Rightarrow> response \<times> db" where
  "register en eventId name email s =
     (case filter (\<lambda>e. e_id e = eventId) (events s) of
        [] \<Rightarrow> (event_not_found, rollback s s)
      | event # _ \<Rightarrow>
          if e_datetime event < clock en then (past_event, rollback s s)
          else if reg_count eventId s \<ge> e_capacity event then (event_full, rollback s s)
          else
            (case resolve_user en name email s of
               Inl err \<Rightarrow> (storage_failure err, rollback s s)
             | Inr (userId, s1) \<Rightarrow>
                 if filter (\<lambda>r. r_user_id r = userId \<and> r_event_id r = eventId)
                      (registrations s1) \<noteq> []
                 then (already_registered, rollback s s1)
                 else
                   (case insert_registration (gen_reg_id en) userId eventId (db_now en) s1 of
                      Inl err \<Rightarrow> (storage_failure err, rollback s s1)
                    | Inr s2 \<Rightarrow> (registration_successful, commit s s2))))"

text \<open>
  The query of line 89 is the first to carry the id text. When the database cannot read
  it as a UUID the query raises, and the \<open>catch\<close> block of lines 138 to 140 rolls back and
  answers with status 500; every later query carries the same text.
\<close>

definition register_handler ::
  "env \<Rightarrow> string \<Rightarrow> string \<Rightarrow> string \<Rightarrow> db \<Rightarrow> response \<times> db" where
  "register_handler en idText name email s =
     (case uuid_in idText of
        None \<Rightarrow> (storage_failure (InvalidUuidText idText), rollback s s)
      | Some eventId \<Rightarrow> register en eventId name email s)"

section \<open>POST /api/events/:id/cancel\<close>

text \<open>
  \<open>DELETE FROM registrations WHERE user_id=$1 AND event_id=$2 RETURNING *\<close> gives the
  deleted rows and leaves the others.
\<close>

definition delete_registrations :: "uuid \<Rightarrow> uuid \<Rightarrow> db \<Rightarrow> registration_row list \<times> db" where
  "delete_registrations userId eventId s =
     (filter (\<lambda>r. r_user_id r = userId \<and> r_event_id r = eventId) (registrations s),
      s\<lparr>registrations :=
          filter (\<lambda>r. \<not> (r_user_id r = userId \<and> r_event_id r = eventId)) (registrations s)\<rparr>)"

definition cancel :: "uuid \<Rightarrow> string \<Rightarrow> db \<Rightarrow> response \<times> db" where
  "cancel eventId email s =
     (case filter (\<lambda>u. u_email u = email) (users s) of
        [] \<Rightarrow> (user_not_found, rollback s s)
      | u # _ \<Rightarrow>
          (case delete_registrations (u_id u) eventId s of
             (del, s1) \<Rightarrow>
               if length del = 0 then (not_registered, rollback s s1)
               else (registration_cancelled, commit s s1)))"

text \<open>
  \<open>cancel\<close> above is the transaction for an id that the database has read as the UUID
  \<open>eventId\<close>; \<open>cancel_handler\<close> is the handler on the id text, lines 153 to 181. The query
  for the user (line 159) does not carry the id, the \<open>DELETE\<close> of line 165 does: when the
  text is no UUID it raises, and the \<open>catch\<close> block of lines 176 to 178 rolls back and
  answers with status 500.
\<close>

definition cancel_handler :: "string \<Rightarrow> string \<Rightarrow> db \<Rightarrow> response \<times> db" where
  "cancel_handler idText email s =
     (case filter (\<lambda>u. u_email u = email) (users s) of
        [] \<Rightarrow> (user_not_found, rollback s s)
      | u # _ \<Rightarrow>
          (case uuid_in idText of
             None \<Rightarrow> (storage_failure (InvalidUuidText idText), rollback s s)
           | Some eventId \<Rightarrow>
               (case delete_registrations (u_id u) eventId s of
                  (del, s1) \<Rightarrow>
                    if length del = 0 then (not_registered, rollback s s1)
                    else (registration_cancelled, commit s s1))))"

section \<open>GET /api/events/:id/stats\<close>

text \<open>
  A JavaScript number is an IEEE 754 double. \<open>fl\<close> rounds a rational to the nearest
  double, ties to the even significand: 53 significant bits, so a value in the binade
  \<open>[2^e, 2^(e+1))\<close> is rounded to a multiple of \<open>2^(e-52)\<close>. The exponent range is left
  unbounded; the quotients and products of 32-bit integers computed here stay far inside
  the normal range, where this is the rounding of the hardware.
\<close>

definition round_half_even :: "rat \<Rightarrow> int" where
  "round_half_even y =
     (let f = \<lfloor>y\<rfloor>; r = y - of_int f
      in if r < 1 / 2 then f else if 1 / 2 < r then f + 1 else if even f then f else f + 1)"

text \<open>The \<open>e\<close> with \<open>2^e \<le> x < 2^(e+1)\<close>, for \<open>x > 0\<close>, from the bit lengths of \<open>x\<close>'s fraction.\<close>

definition binade :: "rat \<Rightarrow> int" where
  "binade x =
     (case quotient_of x of
        (p, q) \<Rightarrow> let d = bitlen p - bitlen q in if 2 powi d \<le> x then d else d - 1)"

definition fl :: "rat \<Rightarrow> rat" where
  "fl x =
     (if x = 0 then 0
      else let u = 2 powi (binade \<bar>x\<bar> - 52)
           in sgn x * of_int (round_half_even (\<bar>x\<bar> / u)) * u)"

datatype number = Finite rat | PosInfinity | NegInfinity | NaN

text \<open>\<open>a / b\<close> on two integers read from the database (both exact as doubles).\<close>

definition js_div :: "int \<Rightarrow> int \<Rightarrow> number" where
  "js_div a b =
     (if b = 0 then (if a = 0 then NaN else if 0 < a then PosInfinity else NegInfinity)
      else Finite (fl (of_int a / of_int b)))"

text \<open>\<open>x * k\<close> for a positive constant \<open>k\<close>.\<close>

fun js_mul :: "number \<Rightarrow> rat \<Rightarrow> number" where
  "js_mul (Finite x) k = Finite (fl (x * k))"
| "js_mul PosInfinity k = PosInfinity"
| "js_mul NegInfinity k = NegInfinity"
| "js_mul NaN k = NaN"

definition digit :: "nat \<Rightarrow> char" where
  "digit d = ''0123456789'' ! d"

fun digits :: "nat \<Rightarrow> string" where
  "digits n = (if n < 10 then [digit n] else digits (n div 10) @ [digit (n mod 10)])"

text \<open>The decimal numeral of \<open>n\<close> hundredths, with two digits after the point.\<close>

definition two_decimals :: "nat \<Rightarrow> string" where
  "two_decimals n = digits (n div 100) @ ''.'' @ [digit (n div 10 mod 10), digit (n mod 10)]"

text \<open>
  \<open>Number.prototype.toFixed(2)\<close>, for magnitudes below \<open>10^21\<close>: the integer \<open>n\<close> for
  which \<open>n / 100\<close> is closest to the exact value of the double, the larger one of two
  such, written with two decimals.
\<close>

fun toFixed2 :: "number \<Rightarrow> string" where
  "toFixed2 (Finite x) =
     (if x < 0 then ''-'' @ two_decimals (nat \<lfloor>- x * 100 + 1 / 2\<rfloor>)
      else two_decimals (nat \<lfloor>x * 100 + 1 / 2\<rfloor>))"
| "toFixed2 PosInfinity = ''Infinity''"
| "toFixed2 NegInfinity = ''-Infinity''"
| "toFixed2 NaN = ''NaN''"

text \<open>
  The handler, lines 187 to 204, on the id text of the request; the route has no
  validator. The query of line 189 raises when the text is no UUID, and the \<open>catch\<close>
  block answers with status 500.
\<close>

definition getStats :: "string \<Rightarrow> db \<Rightarrow> response" where
  "getStats idText s =
     (case uuid_in idText of
        None \<Rightarrow> storage_failure (InvalidUuidText idText)
      | Some eventId \<Rightarrow>
          (case filter (\<lambda>e. e_id e = eventId) (events s) of
             [] \<Rightarrow> event_not_found
           | ev # _ \<Rightarrow>
               let cap = e_capacity ev;
                   total = reg_count eventId s;
                   remaining = cap - total;
                   percent = toFixed2 (js_mul (js_div total cap) 100)
               in Response 200 (JObj [(''totalRegistrations'', JNum total),
                                      (''remainingCapacity'', JNum remaining),
                                      (''percentUsed'', JStr percent)])))"

text \<open>
  The percentage as the specification words it: \<open>(total / capacity) * 100\<close> rounded to two
  decimal places, computed on the exact quotient, a half rounded up.
\<close>

definition percent_spec :: "int \<Rightarrow> int \<Rightarrow> string" where
  "percent_spec registered cap =
     two_decimals (nat \<lfloor>of_int registered / of_int cap * 100 * 100 + (1 / 2 :: rat)\<rfloor>)"

section \<open>GET /api/events/:id and GET /api/events\<close>

text \<open>The columns that \<open>CREATE TABLE events\<close> declares, and the value of each in a row.\<close>

definition events_columns :: "string list" where
  "events_columns = [''id'', ''title'', ''datetime'', ''location'', ''capacity'', ''created_at'']"

definition event_field :: "event_row \<Rightarrow> string \<Rightarrow> json" where
  "event_field e c =
     (if c = ''id'' then JUuid (e_id e)
      else if c = ''title'' then JStr (e_title e)
      else if c = ''datetime'' then JTime (e_datetime e)
      else if c = ''location'' then JStr (e_location e)
      else if c = ''capacity'' then JNum (e_capacity e)
      else JTime (e_created_at e))"

text \<open>
  \<open>SELECT cols FROM events ...\<close> over the rows that the rest of the query chose: a name
  that is no column of the table is an error, whatever the rows.
\<close>

definition select_events :: "string list \<Rightarrow> event_row list \<Rightarrow> dberror + json list" where
  "select_events cols rows =
     (case filter (\<lambda>c. c \<notin> set events_columns) cols of
        c # _ \<Rightarrow> Inl (UndefinedColumn c)
      | [] \<Rightarrow> Inr (map (\<lambda>e. JObj (map (\<lambda>c. (c, event_field e c)) cols)) rows))"

definition getEvent :: "uuid \<Rightarrow> db \<Rightarrow> response" where
  "getEvent eventId s =
     (case select_events
             [''id'', ''title'', ''datetime'', ''location'', ''capacity'', ''created_at'',
              ''updated_at'']
             (filter (\<lambda>e. e_id e = eventId) (events s)) of
        Inl err \<Rightarrow> storage_failure err
      | Inr [] \<Rightarrow> event_not_found
      | Inr (row # _) \<Rightarrow> Response 200 row)"

definition listEvents :: "db \<Rightarrow> response" where
  "listEvents s =
     (case select_events
             [''id'', ''title'', ''datetime'', ''location'', ''capacity'', ''created_at'',
              ''updated_at'']
             (sort_key e_datetime (events s)) of
        Inl err \<Rightarrow> storage_failure err
      | Inr rows \<Rightarrow> Response 200 (JArr rows))"

section \<open>Sequences of requests and the constraints of the schema\<close>

datatype request = Register env uuid string string | Cancel uuid string

fun handle :: "request \<Rightarrow> db \<Rightarrow> response \<times> db" where
  "handle (Register en eventId name email) s = register en eventId name email s"
| "handle (Cancel eventId email) s = cancel eventId email s"

text \<open>The state after a sequence of requests, each transaction run after the one before.\<close>

fun run :: "request list \<Rightarrow> db \<Rightarrow> db" where
  "run [] s = s"
| "run (q # qs) s = run qs (snd (handle q s))"

definition within_capacity :: "db \<Rightarrow> bool" where
  "within_capacity s \<longleftrightarrow> (\<forall>ev \<in> set (events s). reg_count (e_id ev) s \<le> e_capacity ev)"

text \<open>Every constraint of init.sql on the three tables.\<close>

definition schema_ok :: "db \<Rightarrow> bool" where
  "schema_ok s \<longleftrightarrow>
     distinct (map u_id (users s)) \<and>
     distinct (map u_email (users s)) \<and>
     distinct (map e_id (events s)) \<and>
     (\<forall>e \<in> set (events s). 0 < e_capacity e \<and> e_capacity e \<le> 1000) \<and>
     distinct (map r_id (registrations s)) \<and>
     distinct (map (\<lambda>r. (r_user_id r, r_event_id r)) (registrations s)) \<and>
     (\<forall>r \<in> set (registrations s).
        r_user_id r \<in> set (map u_id (users s)) \<and> r_event_id r \<in> set (map e_id (events s)))"

text \<open>The top-level values of a response's JSON object.\<close>

fun body_values :: "response \<Rightarrow> json list" where
  "body_values (Response st (JObj kvs)) = map snd kvs"
| "body_values (Response st v) = [v]"

section \<open>Example stores\<close>

text \<open>
  One user, registered for both events. Event 1 takes place at time 5000 and has room for
  two; event 2 took place at time 500 and is full.
\<close>

definition demo_db :: db where
  "demo_db =
     \<lparr>users = [\<lparr>u_id = 7, u_name = ''Ann'', u_email = ''ann@x.org''\<rparr>],
      events = [\<lparr>e_id = 1, e_title = ''Talk'', e_datetime = 5000, e_location = ''Hall'',
                 e_capacity = 2, e_created_at = 10\<rparr>,
                \<lparr>e_id = 2, e_title = ''Past'', e_datetime = 500, e_location = ''Hall'',
                 e_capacity = 1, e_created_at = 10\<rparr>],
      registrations = [\<lparr>r_id = 20, r_user_id = 7, r_event_id = 1, r_registered_at = 100\<rparr>,
                       \<lparr>r_id = 21, r_user_id = 7, r_event_id = 2, r_registered_at = 100\<rparr>]\<rparr>"

definition demo_env :: env where
  "demo_env = \<lparr>clock = 1000, db_now = 1001, gen_user_id = 8, gen_reg_id = 22\<rparr>"

text \<open>Bob registers for event 1, then Ann cancels her registration for event 2.\<close>

definition demo_requests :: "request list" where
  "demo_requests = [Register demo_env 1 ''Bob'' ''bob@x.org'', Cancel 2 ''ann@x.org'']"

text \<open>An event of capacity \<open>cap\<close> with \<open>n\<close> registered users.\<close>

definition filled_db :: "int \<Rightarrow> nat \<Rightarrow> db" where
  "filled_db cap n =
     \<lparr>users = map (\<lambda>i. \<lparr>u_id = of_nat i, u_name = ''user'',
                           u_email = replicate (Suc i) (CHR ''u'') @ ''@x.org''\<rparr>) [0..<n],
      events = [\<lparr>e_id = 1, e_title = ''Talk'', e_datetime = 5000, e_location = ''Hall'',
                 e_capacity = cap, e_created_at = 10\<rparr>],
      registrations = map (\<lambda>i. \<lparr>r_id = of_nat i, r_user_id = of_nat i, r_event_id = 1,
                                 r_registered_at = 100\<rparr>) [0..<n]\<rparr>"

text \<open>Three people register, one after the other, for an empty event of capacity 10.\<close>

definition three_registrations :: "request list" where
  "three_registrations =
     [Register \<lparr>clock = 1000, db_now = 1001, gen_user_id = 31, gen_reg_id = 41\<rparr> 1
        ''Ann'' ''ann@x.org'',
      Register \<lparr>clock = 1002, db_now = 1003, gen_user_id = 32, gen_reg_id = 42\<rparr> 1
        ''Bob'' ''bob@x.org'',
      Register \<lparr>clock = 1004, db_now = 1005, gen_user_id = 33, gen_reg_id = 43\<rparr> 1
        ''Cy'' ''cy@x.org'']"

section \<open>Basic facts about the handlers\<close>

lemmas responses = event_not_found_def past_event_def event_full_def already_registered_def
  registration_successful_def user_not_found_def not_registered_def
  registration_cancelled_def storage_failure_def

lemmas demo_defs = demo_db_def demo_env_def register_def cancel_def resolve_user_def
  insert_user_def insert_registration_def delete_registrations_def reg_count_def
  rollback_def commit_def

lemma filter_Cons_hd: "filter P xs = y # ys \<Longrightarrow> y \<in> set xs \<and> P y"
proof -
  assume "filter P xs = y # ys"
  then have "y \<in> set (filter P xs)" by simp
  then show ?thesis by simp
qed

text \<open>
  Resolving the user touches the users table only: it is left as it was when the email is
  known, and gets one new row, under an id that no user had, when it is not.
\<close>

lemma resolve_user_users:
  "resolve_user en name email s = Inr (userId, s1) \<Longrightarrow>
   registrations s1 = registrations s \<and> events s1 = events s \<and>
   (if email \<in> set (map u_email (users s)) then s1 = s
    else userId = gen_user_id en \<and> userId \<notin> set (map u_id (users s)) \<and>
         users s1 = users s @ [\<lparr>u_id = gen_user_id en, u_name = name, u_email = email\<rparr>])"
  by (auto simp: resolve_user_def insert_user_def filter_empty_conv
        split: list.splits if_splits sum.splits dest!: filter_Cons_hd)

lemma resolve_user_cases:
  "(filter (\<lambda>u. u_email u = email) (users s) = u # us \<longrightarrow>
      resolve_user en name email s = Inr (u_id u, s)) \<and>
   (filter (\<lambda>u. u_email u = email) (users s) = [] \<longrightarrow>
      resolve_user en name email s =
        (if gen_user_id en \<in> set (map u_id (users s)) then Inl (UniqueViolation ''users_pkey'')
         else Inr (gen_user_id en,
                   s\<lparr>users := users s @ [\<lparr>u_id = gen_user_id en, u_name = name, u_email = email\<rparr>]\<rparr>)))"
  by (auto simp: resolve_user_def insert_user_def filter_empty_conv)

lemma filter_unique_key:
  "distinct (map f xs) \<Longrightarrow> x \<in> set xs \<Longrightarrow> filter (\<lambda>v. f v = f x) xs = [x]"
proof (induction xs)
  case Nil
  then show ?case by simp
next
  case (Cons a xs)
  show ?case
  proof (cases "a = x")
    case True
    with Cons.prems have "\<forall>v \<in> set xs. f v \<noteq> f x" by (auto simp: image_iff)
    then have "filter (\<lambda>v. f v = f x) xs = []" by (simp add: filter_empty_conv)
    with True show ?thesis by simp
  next
    case False
    with Cons.prems have "x \<in> set xs" and "f a \<noteq> f x" by (auto simp: image_iff)
    with Cons show ?thesis by simp
  qed
qed

lemma length_filter_removed:
  "x \<in> set xs \<Longrightarrow> P x \<Longrightarrow> Q x \<Longrightarrow>
   length (filter P (filter (\<lambda>r. \<not> Q r) xs)) < length (filter P xs)"
proof (induction xs)
  case Nil
  then show ?case by simp
next
  case (Cons a xs)
  have le: "length (filter P (filter (\<lambda>r. \<not> Q r) xs)) \<le> length (filter P xs)"
    by (induction xs) auto
  show ?case
  proof (cases "a = x")
    case True
    with Cons.prems le show ?thesis by simp
  next
    case False
    with Cons have "length (filter P (filter (\<lambda>r. \<not> Q r) xs)) < length (filter P xs)"
      by simp
    then show ?thesis by simp
  qed
qed

lemma cancel_cases:
  "cancel eventId email s =
     (case filter (\<lambda>u. u_email u = email) (users s) of
        [] \<Rightarrow> (user_not_found, s)
      | u # _ \<Rightarrow>
          if (\<exists>r \<in> set (registrations s). r_user_id r = u_id u \<and> r_event_id r = eventId)
          then (registration_cancelled,
                s\<lparr>registrations := filter (\<lambda>r. \<not> (r_user_id r = u_id u \<and> r_event_id r = eventId)) (registrations s)\<rparr>)
          else (not_registered, s))"
  by (auto simp: cancel_def delete_registrations_def rollback_def commit_def filter_empty_conv
        split: list.splits)

lemma register_result:
  "register en eventId name email s = (resp, s') \<Longrightarrow>
     (resp \<noteq> registration_successful \<and> s' = s) \<or>
     (resp = registration_successful \<and>
      (\<exists>ev evs userId s1.
          filter (\<lambda>e. e_id e = eventId) (events s) = ev # evs \<and>
          \<not> e_datetime ev < clock en \<and>
          reg_count eventId s < e_capacity ev \<and>
          resolve_user en name email s = Inr (userId, s1) \<and>
          (\<forall>r \<in> set (registrations s). \<not> (r_user_id r = userId \<and> r_event_id r = eventId)) \<and>
          gen_reg_id en \<notin> set (map r_id (registrations s)) \<and>
          userId \<in> set (map u_id (users s1)) \<and>
          eventId \<in> set (map e_id (events s)) \<and>
          s' = s1\<lparr>registrations := registrations s @
                  [\<lparr>r_id = gen_reg_id en, r_user_id = userId, r_event_id = eventId,
                    r_registered_at = db_now en\<rparr>]\<rparr>))"
  by (auto simp: register_def rollback_def commit_def insert_registration_def responses
        filter_empty_conv
        split: list.splits if_splits sum.splits prod.splits dest!: resolve_user_users)

lemma register_status:
  "status (fst (register en eventId name email s)) = 201 \<Longrightarrow>
   fst (register en eventId name email s) = registration_successful"
  by (auto simp: register_def responses split: list.splits if_splits sum.splits prod.splits)

lemma register_events: "events (snd (register en eventId name email s)) = events s"
proof -
  obtain resp s' where r: "register en eventId name email s = (resp, s')"
    by (cases "register en eventId name email s")
  from register_result [OF r] show ?thesis
    unfolding r by (auto dest!: resolve_user_users)
qed

lemma cancel_events: "events (snd (cancel eventId email s)) = events s"
  by (simp add: cancel_def delete_registrations_def rollback_def commit_def
        split: list.splits)

lemma cancel_reg_count: "reg_count e (snd (cancel eventId email s)) \<le> reg_count e s"
proof -
  have "length (filter P (filter Q xs)) \<le> length (filter P xs)" for P Q and xs :: "registration_row list"
    by (induction xs) auto
  then show ?thesis
    by (simp add: cancel_def delete_registrations_def rollback_def commit_def reg_count_def
          split: list.splits)
qed

lemma register_within_capacity:
  assumes d: "distinct (map e_id (events s))" and w: "within_capacity s"
  shows "within_capacity (snd (register en eventId name email s))"
proof -
  obtain resp s' where r: "register en eventId name email s = (resp, s')"
    by (cases "register en eventId name email s")
  from register_result [OF r] show ?thesis
  proof
    assume "resp \<noteq> registration_successful \<and> s' = s"
    with w r show ?thesis by simp
  next
    assume "resp = registration_successful \<and>
      (\<exists>ev evs userId s1.
          filter (\<lambda>e. e_id e = eventId) (events s) = ev # evs \<and>
          \<not> e_datetime ev < clock en \<and>
          reg_count eventId s < e_capacity ev \<and>
          resolve_user en name email s = Inr (userId, s1) \<and>
          (\<forall>r \<in> set (registrations s). \<not> (r_user_id r = userId \<and> r_event_id r = eventId)) \<and>
          gen_reg_id en \<notin> set (map r_id (registrations s)) \<and>
          userId \<in> set (map u_id (users s1)) \<and>
          eventId \<in> set (map e_id (events s)) \<and>
          s' = s1\<lparr>registrations := registrations s @
                  [\<lparr>r_id = gen_reg_id en, r_user_id = userId, r_event_id = eventId,
                    r_registered_at = db_now en\<rparr>]\<rparr>)"
    then obtain ev evs userId s1 where
      f: "filter (\<lambda>e. e_id e = eventId) (events s) = ev # evs"
      and c: "reg_count eventId s < e_capacity ev"
      and u: "resolve_user en name email s = Inr (userId, s1)"
      and s': "s' = s1\<lparr>registrations := registrations s @
                  [\<lparr>r_id = gen_reg_id en, r_user_id = userId, r_event_id = eventId,
                    r_registered_at = db_now en\<rparr>]\<rparr>"
      by blast
    from resolve_user_users [OF u] have e1: "events s1 = events s" by simp
    from f have evin: "ev \<in> set (events s)" "e_id ev = eventId"
      using filter_Cons_hd [OF f] by simp_all
    have "reg_count (e_id x) s' \<le> e_capacity x" if x: "x \<in> set (events s)" for x
    proof (cases "e_id x = eventId")
      case True
      with d x evin have "x = ev" by (simp add: distinct_map inj_on_def)
      with c True show ?thesis by (simp add: s' reg_count_def)
    next
      case False
      with w x show ?thesis by (simp add: s' reg_count_def within_capacity_def)
    qed
    then show ?thesis
      unfolding r by (simp add: within_capacity_def s' e1)
  qed
qed

lemma cancel_within_capacity:
  assumes "within_capacity s"
  shows "within_capacity (snd (cancel eventId email s))"
  unfolding within_capacity_def cancel_events
proof
  fix ev assume "ev \<in> set (events s)"
  with assms have "reg_count (e_id ev) s \<le> e_capacity ev"
    by (simp add: within_capacity_def)
  with cancel_reg_count [of "e_id ev" eventId email s]
  show "reg_count (e_id ev) (snd (cancel eventId email s)) \<le> e_capacity ev"
    by simp
qed

lemma handle_events: "events (snd (handle q s)) = events s"
  by (cases q) (simp_all add: register_events cancel_events)

lemma run_events: "events (run qs s) = events s"
  by (induction qs arbitrary: s) (simp_all add: handle_events)

lemma run_within_capacity:
  "distinct (map e_id (events s)) \<Longrightarrow> within_capacity s \<Longrightarrow> within_capacity (run qs s)"
proof (induction qs arbitrary: s)
  case Nil
  then show ?case by simp
next
  case (Cons q qs)
  have "within_capacity (snd (handle q s))"
    using Cons.prems by (cases q) (simp_all add: register_within_capacity cancel_within_capacity)
  moreover have "distinct (map e_id (events (snd (handle q s))))"
    using Cons.prems by (simp add: handle_events)
  ultimately show ?case using Cons.IH by simp
qed

lemma register_full_or_past:
  assumes d: "distinct (map e_id (events s))" and ev: "ev \<in> set (events s)"
    and full: "e_capacity ev \<le> reg_count (e_id ev) s"
  shows "register en (e_id ev) name email s =
           (if e_datetime ev < clock en then past_event else event_full, s)"
proof -
  from d ev have "filter (\<lambda>e. e_id e = e_id ev) (events s) = [ev]"
    by (rule filter_unique_key)
  with full show ?thesis
    by (simp add: register_def rollback_def)
qed

lemma run_demo:
  "run demo_requests demo_db =
     \<lparr>users = [\<lparr>u_id = 7, u_name = ''Ann'', u_email = ''ann@x.org''\<rparr>,
               \<lparr>u_id = 8, u_name = ''Bob'', u_email = ''bob@x.org''\<rparr>],
      events = events demo_db,
      registrations = [\<lparr>r_id = 20, r_user_id = 7, r_event_id = 1, r_registered_at = 100\<rparr>,
                       \<lparr>r_id = 22, r_user_id = 8, r_event_id = 1, r_registered_at = 1001\<rparr>]\<rparr>"
  by (simp add: demo_requests_def demo_defs)

section \<open>Rounding to a double\<close>

text \<open>The double nearest to one tenth, as the hardware has it.\<close>

lemma fl_one_tenth: "fl (1 / 10) = 3602879701896397 / 36028797018963968"
  by code_simp

lemma round_half_even_error: "\<bar>of_int (round_half_even y) - y\<bar> \<le> 1 / 2"
proof -
  have "of_int \<lfloor>y\<rfloor> \<le> y" "y < of_int \<lfloor>y\<rfloor> + 1" by linarith+
  then show ?thesis
    by (auto simp: round_half_even_def Let_def)
qed

lemma binade_lower:
  assumes "0 < x"
  shows "2 powi binade x \<le> x"
proof -
  obtain p q where pq: "quotient_of x = (p, q)" by (cases "quotient_of x")
  then have q: "0 < q" and x: "x = of_int p / of_int q"
    by (simp_all add: quotient_of_denom_pos quotient_of_div)
  with assms have p: "0 < p"
    by (simp add: zero_less_divide_iff)
  let ?d = "bitlen p - bitlen q"
  show ?thesis
  proof (cases "2 powi ?d \<le> x")
    case True
    then show ?thesis by (simp add: binade_def pq)
  next
    case False
    then have b: "binade x = ?d - 1" by (simp add: binade_def pq)
    from bitlen_bounds [OF p] have "2 ^ nat (bitlen p - 1) \<le> p" by simp
    then have lp: "(2::rat) ^ nat (bitlen p - 1) \<le> of_int p"
      by (metis of_int_le_iff of_int_numeral of_int_power)
    from bitlen_bounds [OF q] have "q < 2 ^ nat (bitlen q)" by simp
    then have uq: "of_int q < (2::rat) ^ nat (bitlen q)"
      by (metis of_int_less_iff of_int_numeral of_int_power)
    have bp: "1 \<le> bitlen p" using p bitlen_eq_zero_iff [of p] bitlen_nonneg [of p] by linarith
    have "(2::rat) powi (?d - 1) = 2 powi (bitlen p - 1) / 2 powi bitlen q"
      by (simp add: power_int_diff)
    also have "\<dots> = 2 ^ nat (bitlen p - 1) / 2 ^ nat (bitlen q)"
      using bp bitlen_nonneg [of q] by (simp add: power_int_nonneg_exp)
    also have "\<dots> \<le> of_int p / of_int q"
      using lp uq q p by (intro frac_le) simp_all
    finally have "2 powi (?d - 1) \<le> x" by (simp add: x)
    then show ?thesis by (simp add: b)
  qed
qed

lemma binade_upper:
  assumes "0 < x"
  shows "x < 2 powi (binade x + 1)"
proof -
  obtain p q where pq: "quotient_of x = (p, q)" by (cases "quotient_of x")
  then have q: "0 < q" and x: "x = of_int p / of_int q"
    by (simp_all add: quotient_of_denom_pos quotient_of_div)
  with assms have p: "0 < p"
    by (simp add: zero_less_divide_iff)
  let ?d = "bitlen p - bitlen q"
  show ?thesis
  proof (cases "2 powi ?d \<le> x")
    case False
    then show ?thesis by (simp add: binade_def pq)
  next
    case True
    then have b: "binade x = ?d" by (simp add: binade_def pq)
    from bitlen_bounds [OF p] have "p < 2 ^ nat (bitlen p)" by simp
    then have up: "of_int p < (2::rat) ^ nat (bitlen p)"
      by (metis of_int_less_iff of_int_numeral of_int_power)
    from bitlen_bounds [OF q] have "2 ^ nat (bitlen q - 1) \<le> q" by simp
    then have lq: "(2::rat) ^ nat (bitlen q - 1) \<le> of_int q"
      by (metis of_int_le_iff of_int_numeral of_int_power)
    have bq: "1 \<le> bitlen q" using q bitlen_eq_zero_iff [of q] bitlen_nonneg [of q] by linarith
    have "of_int p / of_int q < (2::rat) ^ nat (bitlen p) / 2 ^ nat (bitlen q - 1)"
      using up lq q p by (intro frac_less) simp_all
    also have "\<dots> = 2 powi bitlen p / 2 powi (bitlen q - 1)"
      using bq bitlen_nonneg [of p] by (simp add: power_int_nonneg_exp)
    also have "\<dots> = 2 powi (?d + 1)"
      by (simp add: power_int_diff [symmetric] algebra_simps)
    finally have "x < 2 powi (?d + 1)" by (simp add: x)
    then show ?thesis by (simp add: b)
  qed
qed

text \<open>Rounding a positive number to a double changes it by at most the fraction \<open>2^-53\<close> of it.\<close>

lemma fl_error:
  assumes "0 < x"
  shows "\<bar>fl x - x\<bar> \<le> x / 2 ^ 53"
proof -
  define u :: rat where "u = 2 powi (binade x - 52)"
  have u: "0 < u" by (simp add: u_def zero_less_power_int)
  have "u = 2 powi binade x / 2 ^ 52"
    by (simp add: u_def power_int_diff)
  with binade_lower [OF assms] have ux: "u \<le> x / 2 ^ 52"
    by (simp add: divide_right_mono)
  have f: "fl x = of_int (round_half_even (x / u)) * u"
    using assms by (simp add: fl_def u_def Let_def)
  have "fl x - x = (of_int (round_half_even (x / u)) - x / u) * u"
    using u by (simp add: f left_diff_distrib)
  then have "\<bar>fl x - x\<bar> = \<bar>of_int (round_half_even (x / u)) - x / u\<bar> * u"
    using u by (simp add: abs_mult)
  also have "\<dots> \<le> 1 / 2 * u"
    using u round_half_even_error [of "x / u"] by (intro mult_right_mono) simp_all
  also have "\<dots> \<le> 1 / 2 * (x / 2 ^ 52)"
    using ux by simp
  also have "\<dots> = x / 2 ^ 53" by simp
  finally show ?thesis .
qed

text \<open>
  The number of hundredths that \<open>toFixed(2)\<close> prints for \<open>(t / c) * 100\<close> is at most one half
  away from the exact \<open>10000 t / c\<close>. The two roundings move the value by less than
  \<open>1 / (2 c)\<close>, and \<open>20000 t / c\<close> is a multiple of \<open>1 / c\<close>.
\<close>

lemma percent_nearest:
  fixes t c :: int
  assumes t: "0 \<le> t" "t < 2 ^ 31" and c: "0 < c"
  defines "n \<equiv> \<lfloor>fl (fl (of_int t / of_int c) * 100) * 100 + 1 / 2\<rfloor>"
  shows "0 \<le> fl (fl (of_int t / of_int c) * 100) \<and> 0 \<le> n \<and>
         \<bar>of_int n - 10000 * of_int t / of_int c\<bar> \<le> (1 / 2 :: rat)"
proof (cases "t = 0")
  case True
  have "\<lfloor>1 / 2 :: rat\<rfloor> = 0" by (rule floor_unique) simp_all
  with True show ?thesis by (simp add: n_def fl_def)
next
  case False
  with t have tpos: "0 < t" by simp
  define x :: rat where "x = of_int t / of_int c"
  define e :: rat where "e = x / 2 ^ 53"
  define a where "a = fl x"
  define b where "b = fl (a * 100)"
  have x: "0 < x" using tpos c by (simp add: x_def)
  have e: "0 < e" "4 * e < x" using x by (simp_all add: e_def)
  have ea: "\<bar>a - x\<bar> \<le> e"
    unfolding a_def e_def by (rule fl_error [OF x])
  with e have a: "0 < a" and a2: "a \<le> 2 * x" by linarith+
  have "\<bar>b - a * 100\<bar> \<le> a * 100 / 2 ^ 53"
    unfolding b_def by (rule fl_error) (use a in simp)
  also have "\<dots> \<le> 2 * x * 100 / 2 ^ 53"
    using a2 by (simp add: divide_right_mono)
  also have "\<dots> = 200 * e" by (simp add: e_def)
  finally have eb: "\<bar>b - a * 100\<bar> \<le> 200 * e" .
  have "200 * e < 100 * a"
    using ea e by linarith
  with eb have b: "0 \<le> b" by linarith
  have ew: "\<bar>b * 100 - 10000 * x\<bar> \<le> 30000 * e"
    using eb ea by linarith
  have n: "n = \<lfloor>b * 100 + 1 / 2\<rfloor>"
    by (simp add: n_def b_def a_def x_def)
  have nf: "of_int n \<le> b * 100 + 1 / 2" "b * 100 + 1 / 2 < of_int n + 1"
    unfolding n by linarith+
  from b have "0 \<le> b * 100 + 1 / 2" by simp
  then have npos: "0 \<le> n" unfolding n by simp
  from nf ew have en: "\<bar>of_int n - 10000 * x\<bar> \<le> 1 / 2 + 30000 * e"
    by linarith
  have cx: "of_int c * x = of_int t" using c by (simp add: x_def)
  have ce: "60000 * (of_int c * e) < 1"
  proof -
    from t have "of_int t < (2 ^ 31 :: rat)"
      by (metis of_int_less_iff of_int_numeral of_int_power)
    moreover have "of_int c * e = of_int t / 2 ^ 53"
      using cx by (simp add: e_def)
    ultimately show ?thesis by simp
  qed
  have "\<bar>of_int (2 * c * n - 20000 * t)\<bar> = 2 * of_int c * \<bar>of_int n - 10000 * x\<bar>"
  proof -
    have "of_int (2 * c * n - 20000 * t) = 2 * of_int c * (of_int n - 10000 * x)"
      using cx by (simp add: algebra_simps)
    then show ?thesis using c by (simp add: abs_mult)
  qed
  also have "\<dots> \<le> 2 * of_int c * (1 / 2 + 30000 * e)"
    using en c by (intro mult_left_mono) simp_all
  also have "\<dots> = of_int c + 60000 * (of_int c * e)"
    by (simp add: algebra_simps)
  also have "\<dots> < of_int c + 1"
    using ce by simp
  finally have "\<bar>of_int (2 * c * n - 20000 * t)\<bar> < (of_int (c + 1) :: rat)" by simp
  then have "\<bar>2 * c * n - 20000 * t\<bar> < c + 1"
    by (metis of_int_abs of_int_less_iff)
  then have "\<bar>2 * c * n - 20000 * t\<bar> \<le> c" by simp
  then have "\<bar>of_int (2 * c * n - 20000 * t)\<bar> \<le> (of_int c :: rat)"
    by (metis of_int_abs of_int_le_iff)
  moreover have "of_int (2 * c * n - 20000 * t)
                   = 2 * of_int c * (of_int n - 10000 * of_int t / of_int c :: rat)"
    using c by (simp add: field_simps)
  ultimately have "2 * of_int c * \<bar>of_int n - 10000 * of_int t / of_int c :: rat\<bar> \<le> of_int c"
    using c by (simp add: abs_mult)
  then have "\<bar>of_int n - 10000 * of_int t / of_int c :: rat\<bar> \<le> 1 / 2"
    using c by (simp add: field_simps)
  with npos b show ?thesis by (simp add: b_def a_def x_def)
qed

lemma run_three:
  "registrations (run three_registrations (filled_db 10 0)) =
     [\<lparr>r_id = 41, r_user_id = 31, r_event_id = 1, r_registered_at = 1001\<rparr>,
      \<lparr>r_id = 42, r_user_id = 32, r_event_id = 1, r_registered_at = 1003\<rparr>,
      \<lparr>r_id = 43, r_user_id = 33, r_event_id = 1, r_registered_at = 1005\<rparr>]"
  by (simp add: three_registrations_def filled_db_def register_def resolve_user_def
        insert_user_def insert_registration_def reg_count_def rollback_def commit_def)

lemma two_decimals_3000: "two_decimals 3000 = ''30.00''"
  by code_simp

section \<open>The constraints of the schema are kept\<close>

text \<open>
  The theorems below assume of a store only constraints that init.sql declares (unique
  keys and emails, foreign keys). Every store reached from one that satisfies them
  satisfies them too: the inserts check them and a delete cannot break them.
\<close>

lemma demo_db_schema_ok: "schema_ok demo_db"
  by (simp add: schema_ok_def demo_db_def)

lemma cancel_schema_ok:
  assumes "schema_ok s"
  shows "schema_ok (snd (cancel eventId email s))"
proof -
  have "schema_ok (s\<lparr>registrations := filter P (registrations s)\<rparr>)" for P
    using assms by (auto simp: schema_ok_def distinct_map_filter)
  with assms show ?thesis
    by (simp add: cancel_cases split: list.splits)
qed

lemma register_schema_ok:
  assumes ok: "schema_ok s"
  shows "schema_ok (snd (register en eventId name email s))"
proof -
  obtain resp s' where r: "register en eventId name email s = (resp, s')"
    by (cases "register en eventId name email s")
  from register_result [OF r] show ?thesis
  proof
    assume "resp \<noteq> registration_successful \<and> s' = s"
    with ok r show ?thesis by simp
  next
    assume "resp = registration_successful \<and>
      (\<exists>ev evs userId s1.
          filter (\<lambda>e. e_id e = eventId) (events s) = ev # evs \<and>
          \<not> e_datetime ev < clock en \<and>
          reg_count eventId s < e_capacity ev \<and>
          resolve_user en name email s = Inr (userId, s1) \<and>
          (\<forall>r \<in> set (registrations s). \<not> (r_user_id r = userId \<and> r_event_id r = eventId)) \<and>
          gen_reg_id en \<notin> set (map r_id (registrations s)) \<and>
          userId \<in> set (map u_id (users s1)) \<and>
          eventId \<in> set (map e_id (events s)) \<and>
          s' = s1\<lparr>registrations := registrations s @
                  [\<lparr>r_id = gen_reg_id en, r_user_id = userId, r_event_id = eventId,
                    r_registered_at = db_now en\<rparr>]\<rparr>)"
    then obtain userId s1 where
      u: "resolve_user en name email s = Inr (userId, s1)"
      and nodup: "\<forall>r \<in> set (registrations s). \<not> (r_user_id r = userId \<and> r_event_id r = eventId)"
      and fresh: "gen_reg_id en \<notin> set (map r_id (registrations s))"
      and uin: "userId \<in> set (map u_id (users s1))"
      and ein: "eventId \<in> set (map e_id (events s))"
      and s': "s' = s1\<lparr>registrations := registrations s @
                  [\<lparr>r_id = gen_reg_id en, r_user_id = userId, r_event_id = eventId,
                    r_registered_at = db_now en\<rparr>]\<rparr>"
      by blast
    note ru = resolve_user_users [OF u]
    have us: "distinct (map u_id (users s1))" "distinct (map u_email (users s1))"
      "set (map u_id (users s)) \<subseteq> set (map u_id (users s1))"
      using ru ok by (auto simp: schema_ok_def split: if_splits)
    have pairs: "(userId, eventId) \<notin> set (map (\<lambda>r. (r_user_id r, r_event_id r)) (registrations s))"
      using nodup by auto
    show ?thesis
      unfolding r using ok us pairs fresh uin ein ru
      by (auto simp: schema_ok_def s')
  qed
qed

lemma run_schema_ok: "schema_ok s \<Longrightarrow> schema_ok (run qs s)"
proof (induction qs arbitrary: s)
  case Nil
  then show ?case by simp
next
  case (Cons q qs)
  have "schema_ok (snd (handle q s))"
    using Cons.prems by (cases q) (simp_all add: register_schema_ok cancel_schema_ok)
  then show ?case using Cons.IH by simp
qed

section \<open>The handlers on an id text\<close>

lemma register_handler_uuid:
  "uuid_in idText = Some eventId \<Longrightarrow>
   register_handler en idText name email s = register en eventId name email s"
  by (simp add: register_handler_def)

lemma register_handler_no_uuid:
  "uuid_in idText = None \<Longrightarrow>
   register_handler en idText name email s = (storage_failure (InvalidUuidText idText), s)"
  by (simp add: register_handler_def rollback_def)

lemma cancel_handler_uuid:
  "uuid_in idText = Some eventId \<Longrightarrow> cancel_handler idText email s = cancel eventId email s"
  by (simp add: cancel_handler_def cancel_def split: list.splits)

lemma cancel_handler_no_uuid:
  "uuid_in idText = None \<Longrightarrow>
   cancel_handler idText email s =
     (if filter (\<lambda>u. u_email u = email) (users s) = [] then user_not_found
      else storage_failure (InvalidUuidText idText), s)"
  by (simp add: cancel_handler_def rollback_def split: list.splits)

lemma getStats_no_uuid:
  "uuid_in idText = None \<Longrightarrow> getStats idText s = storage_failure (InvalidUuidText idText)"
  by (simp add: getStats_def)

lemma uuid_in_examples:
  "uuid_in ''1'' = None"
  "uuid_in ''00000000-0000-0000-0000-000000000001'' = Some 1"
  "uuid_in ''00000000-0000-0000-0000-000000000002'' = Some 2"
  "uuid_in ''00000000-0000-0000-0000-000000000003'' = Some 3"
  "uuid_in ''00000000-0000-0000-0000-000000000009'' = Some 9"
  by code_simp+

section \<open>Atomicity of register\<close>

text \<open>
  C3. Whenever register does not answer with its success message (event not found, past
  event, event full, already registered, or an error of the database), the store after the
  call is the store before it: no registration row and no user row of the failed attempt
  remains.
\<close>

theorem register_atomic:
  "fst (register en eventId name email s) \<noteq> registration_successful \<Longrightarrow>
   snd (register en eventId name email s) = s"
  by (auto simp: register_def rollback_def split: list.splits if_splits sum.splits prod.splits)

text \<open>
  The attempt below creates the user Bob and then fails on the registration's primary
  key; Bob's row is gone after the rollback.
\<close>

theorem register_atomic_witness:
  "fst (register (demo_env\<lparr>gen_reg_id := 20\<rparr>) 1 ''Bob'' ''bob@x.org'' demo_db)
     = storage_failure (UniqueViolation ''registrations_pkey'') \<and>
   fst (register (demo_env\<lparr>gen_reg_id := 20\<rparr>) 1 ''Bob'' ''bob@x.org'' demo_db)
     \<noteq> registration_successful \<and>
   snd (register (demo_env\<lparr>gen_reg_id := 20\<rparr>) 1 ''Bob'' ''bob@x.org'' demo_db) = demo_db"
proof -
  have r: "fst (register (demo_env\<lparr>gen_reg_id := 20\<rparr>) 1 ''Bob'' ''bob@x.org'' demo_db)
             = storage_failure (UniqueViolation ''registrations_pkey'')"
    by (simp add: demo_defs)
  have h: "fst (register (demo_env\<lparr>gen_reg_id := 20\<rparr>) 1 ''Bob'' ''bob@x.org'' demo_db)
             \<noteq> registration_successful"
    unfolding r by (simp add: responses)
  from register_atomic [OF h] r h show ?thesis by simp
qed

section \<open>Capacity is never exceeded\<close>

text \<open>
  C1, as the code has it. Take a store in which event ids are unique (the primary key of
  \<open>events\<close>) and no event has more registrations than its capacity. After any sequence of
  register and cancel requests, run one after the other, every event still has at most as
  many registrations as its capacity. In every state so reached, a register attempt for an
  event whose count has reached its capacity changes nothing and fails: with "Event is
  full" when the event is not past, and with "Cannot register for past event" when it is,
  since the handler checks the time before the count.
\<close>

theorem capacity_never_exceeded:
  assumes "distinct (map e_id (events s))" and "within_capacity s"
  shows "within_capacity (run qs s) \<and>
         (\<forall>ev \<in> set (events (run qs s)).
            e_capacity ev \<le> reg_count (e_id ev) (run qs s) \<longrightarrow>
            register en (e_id ev) name email (run qs s) =
              (if e_datetime ev < clock en then past_event else event_full, run qs s))"
  using assms run_within_capacity [of s qs] register_full_or_past [of "run qs s"]
  by (simp add: run_events)

text \<open>
  In the example, Bob takes the last place of event 1; the next attempt finds it full.
\<close>

theorem capacity_never_exceeded_witness:
  "distinct (map e_id (events demo_db)) \<and> within_capacity demo_db \<and>
   within_capacity (run demo_requests demo_db) \<and>
   reg_count 1 (run demo_requests demo_db) = 2 \<and>
   register (demo_env\<lparr>gen_user_id := 9, gen_reg_id := 23\<rparr>) 1 ''Cy'' ''cy@x.org''
       (run demo_requests demo_db)
     = (event_full, run demo_requests demo_db)"
proof -
  have d: "distinct (map e_id (events demo_db))"
    by (simp add: demo_db_def)
  have w: "within_capacity demo_db"
    by (simp add: demo_db_def within_capacity_def reg_count_def)
  let ?ev = "\<lparr>e_id = 1, e_title = ''Talk'', e_datetime = 5000, e_location = ''Hall'',
                 e_capacity = 2, e_created_at = 10\<rparr>"
  have c: "reg_count 1 (run demo_requests demo_db) = 2"
    by (simp add: run_demo reg_count_def)
  have e: "?ev \<in> set (events (run demo_requests demo_db))"
    by (simp add: run_events demo_db_def)
  note t = capacity_never_exceeded [OF d w, of demo_requests
             "demo_env\<lparr>gen_user_id := 9, gen_reg_id := 23\<rparr>" "''Cy''" "''cy@x.org''"]
  from t have "within_capacity (run demo_requests demo_db)" by blast
  moreover from t e c
  have "register (demo_env\<lparr>gen_user_id := 9, gen_reg_id := 23\<rparr>) 1 ''Cy'' ''cy@x.org''
          (run demo_requests demo_db) = (event_full, run demo_requests demo_db)"
    by (auto simp: demo_env_def)
  ultimately show ?thesis using d w c by simp
qed

text \<open>
  C1 as stated fails on a full event that is also past: event 2 of the example store has
  one registration for a capacity of one, and the attempt is answered with the error of the
  time check, not with "Event is full".
\<close>

theorem full_past_event_counterexample:
  "e_id (events demo_db ! 1) = 2 \<and>
   e_capacity (events demo_db ! 1) = 1 \<and>
   reg_count 2 demo_db = 1 \<and>
   e_datetime (events demo_db ! 1) < clock demo_env \<and>
   register demo_env 2 ''Bob'' ''bob@x.org'' demo_db = (past_event, demo_db) \<and>
   past_event \<noteq> event_full"
  by (simp add: demo_defs responses)

section \<open>The order of the checks of register\<close>

text \<open>
  For an id that the database reads as a UUID, the transaction answers with the first check
  that fails, in this order, and leaves the store as it was: (1) "Event not found" when no
  event has the id; (2) "Cannot register for
  past event" when the event's time is before the server clock, whatever the count;
  (3) "Event is full" when the event is not past and the count has reached the capacity,
  whoever asks; (4) the user is the first row with the email, or a new row under the
  generated id when there is none (an id that is taken is an error of the database);
  (5) "Already registered" when the resolved user has a registration for the event. Only
  after all of these is the registration row inserted.
\<close>

theorem register_check_order:
  "(filter (\<lambda>e. e_id e = eventId) (events s) = [] \<longrightarrow>
      register en eventId name email s = (event_not_found, s)) \<and>
   (filter (\<lambda>e. e_id e = eventId) (events s) = ev # evs \<longrightarrow>
      (e_datetime ev < clock en \<longrightarrow>
         register en eventId name email s = (past_event, s)) \<and>
      (\<not> e_datetime ev < clock en \<and> e_capacity ev \<le> reg_count eventId s \<longrightarrow>
         register en eventId name email s = (event_full, s)) \<and>
      (\<not> e_datetime ev < clock en \<and> reg_count eventId s < e_capacity ev \<longrightarrow>
         (filter (\<lambda>u. u_email u = email) (users s) = u # us \<longrightarrow>
            resolve_user en name email s = Inr (u_id u, s)) \<and>
         (filter (\<lambda>u. u_email u = email) (users s) = [] \<longrightarrow>
            resolve_user en name email s =
              (if gen_user_id en \<in> set (map u_id (users s))
               then Inl (UniqueViolation ''users_pkey'')
               else Inr (gen_user_id en,
                         s\<lparr>users := users s @
                            [\<lparr>u_id = gen_user_id en, u_name = name, u_email = email\<rparr>]\<rparr>))) \<and>
         (resolve_user en name email s = Inl err \<longrightarrow>
            register en eventId name email s = (storage_failure err, s)) \<and>
         (resolve_user en name email s = Inr (userId, s1) \<longrightarrow>
            ((\<exists>r \<in> set (registrations s1). r_user_id r = userId \<and> r_event_id r = eventId) \<longrightarrow>
               register en eventId name email s = (already_registered, s)) \<and>
            (\<not> (\<exists>r \<in> set (registrations s1). r_user_id r = userId \<and> r_event_id r = eventId) \<longrightarrow>
               register en eventId name email s =
                 (case insert_registration (gen_reg_id en) userId eventId (db_now en) s1 of
                    Inl e \<Rightarrow> (storage_failure e, s)
                  | Inr s2 \<Rightarrow> (registration_successful, s2))))))"
  using resolve_user_cases [of email s u us en name]
  by (auto simp: register_def rollback_def commit_def filter_empty_conv split: sum.splits)

text \<open>
  One request for each outcome. The second is past, full and a duplicate at once, the third
  full and a duplicate: the earlier check decides.
\<close>

theorem register_check_order_witness:
  "register demo_env 9 ''Ann'' ''ann@x.org'' demo_db = (event_not_found, demo_db) \<and>
   register demo_env 2 ''Ann'' ''ann@x.org'' demo_db = (past_event, demo_db) \<and>
   register (demo_env\<lparr>clock := 100\<rparr>) 2 ''Ann'' ''ann@x.org'' demo_db = (event_full, demo_db) \<and>
   register (demo_env\<lparr>gen_user_id := 7\<rparr>) 1 ''Bob'' ''bob@x.org'' demo_db
     = (storage_failure (UniqueViolation ''users_pkey''), demo_db) \<and>
   register demo_env 1 ''Ann'' ''ann@x.org'' demo_db = (already_registered, demo_db) \<and>
   register demo_env 1 ''Bob'' ''bob@x.org'' demo_db =
     (registration_successful,
      demo_db\<lparr>users := users demo_db @ [\<lparr>u_id = 8, u_name = ''Bob'', u_email = ''bob@x.org''\<rparr>],
              registrations := registrations demo_db @
                [\<lparr>r_id = 22, r_user_id = 8, r_event_id = 1, r_registered_at = 1001\<rparr>]\<rparr>)"
proof -
  let ?e1 = "\<lparr>e_id = 1, e_title = ''Talk'', e_datetime = 5000, e_location = ''Hall'',
               e_capacity = 2, e_created_at = 10\<rparr>"
  let ?e2 = "\<lparr>e_id = 2, e_title = ''Past'', e_datetime = 500, e_location = ''Hall'',
               e_capacity = 1, e_created_at = 10\<rparr>"
  let ?ann = "\<lparr>u_id = 7, u_name = ''Ann'', u_email = ''ann@x.org''\<rparr>"
  let ?bob = "\<lparr>u_id = 8, u_name = ''Bob'', u_email = ''bob@x.org''\<rparr>"
  have f9: "filter (\<lambda>e. e_id e = 9) (events demo_db) = []"
    and f2: "filter (\<lambda>e. e_id e = 2) (events demo_db) = ?e2 # []"
    and f1: "filter (\<lambda>e. e_id e = 1) (events demo_db) = ?e1 # []"
    and c1: "reg_count 1 demo_db = 1" and c2: "reg_count 2 demo_db = 1"
    and ua: "filter (\<lambda>u. u_email u = ''ann@x.org'') (users demo_db) = ?ann # []"
    and ub: "filter (\<lambda>u. u_email u = ''bob@x.org'') (users demo_db) = []"
    by (simp_all add: demo_db_def reg_count_def)
  have 1: "register demo_env 9 ''Ann'' ''ann@x.org'' demo_db = (event_not_found, demo_db)"
    using register_check_order [where eventId = 9 and s = demo_db and en = demo_env
            and name = "''Ann''" and email = "''ann@x.org''"] f9
    by blast
  have 2: "register demo_env 2 ''Ann'' ''ann@x.org'' demo_db = (past_event, demo_db)"
    using register_check_order [where eventId = 2 and s = demo_db and en = demo_env
            and name = "''Ann''" and email = "''ann@x.org''" and ev = ?e2 and evs = "[]"] f2
    by (simp add: demo_env_def)
  have 3: "register (demo_env\<lparr>clock := 100\<rparr>) 2 ''Ann'' ''ann@x.org'' demo_db
             = (event_full, demo_db)"
    using register_check_order [where eventId = 2 and s = demo_db
            and en = "demo_env\<lparr>clock := 100\<rparr>" and name = "''Ann''" and email = "''ann@x.org''"
            and ev = ?e2 and evs = "[]"] f2 c2
    by (simp add: demo_env_def)
  have r4: "resolve_user (demo_env\<lparr>gen_user_id := 7\<rparr>) ''Bob'' ''bob@x.org'' demo_db
              = Inl (UniqueViolation ''users_pkey'')"
    using register_check_order [where eventId = 1 and s = demo_db
            and en = "demo_env\<lparr>gen_user_id := 7\<rparr>" and name = "''Bob''"
            and email = "''bob@x.org''" and ev = ?e1 and evs = "[]"] f1 c1 ub
    by (simp add: demo_env_def) (simp add: demo_db_def)
  have 4: "register (demo_env\<lparr>gen_user_id := 7\<rparr>) 1 ''Bob'' ''bob@x.org'' demo_db
             = (storage_failure (UniqueViolation ''users_pkey''), demo_db)"
    using register_check_order [where eventId = 1 and s = demo_db
            and en = "demo_env\<lparr>gen_user_id := 7\<rparr>" and name = "''Bob''"
            and email = "''bob@x.org''" and ev = ?e1 and evs = "[]"
            and err = "UniqueViolation ''users_pkey''"] f1 c1 r4
    by (simp add: demo_env_def)
  have r5: "resolve_user demo_env ''Ann'' ''ann@x.org'' demo_db = Inr (7, demo_db)"
    using register_check_order [where eventId = 1 and s = demo_db and en = demo_env
            and name = "''Ann''" and email = "''ann@x.org''" and ev = ?e1 and evs = "[]"
            and u = ?ann and us = "[]"]
      f1 c1 ua
    by (simp add: demo_env_def)
  have 5: "register demo_env 1 ''Ann'' ''ann@x.org'' demo_db = (already_registered, demo_db)"
    using register_check_order [where eventId = 1 and s = demo_db and en = demo_env
            and name = "''Ann''" and email = "''ann@x.org''" and ev = ?e1 and evs = "[]"
            and userId = 7 and ?s1.0 = demo_db] f1 c1 r5
    by (simp add: demo_env_def) (simp add: demo_db_def)
  let ?s1 = "demo_db\<lparr>users := users demo_db @ [?bob]\<rparr>"
  have r6: "resolve_user demo_env ''Bob'' ''bob@x.org'' demo_db = Inr (8, ?s1)"
    using register_check_order [where eventId = 1 and s = demo_db and en = demo_env
            and name = "''Bob''" and email = "''bob@x.org''" and ev = ?e1 and evs = "[]"]
      f1 c1 ub
    by (simp add: demo_env_def) (simp add: demo_db_def)
  have 6: "register demo_env 1 ''Bob'' ''bob@x.org'' demo_db =
     (registration_successful,
      demo_db\<lparr>users := users demo_db @ [?bob],
              registrations := registrations demo_db @
                [\<lparr>r_id = 22, r_user_id = 8, r_event_id = 1, r_registered_at = 1001\<rparr>]\<rparr>)"
    using register_check_order [where eventId = 1 and s = demo_db and en = demo_env
            and name = "''Bob''" and email = "''bob@x.org''" and ev = ?e1 and evs = "[]"
            and userId = 8 and ?s1.0 = ?s1] f1 c1 r6
    by (simp add: demo_env_def) (simp add: demo_db_def insert_registration_def)
  from 1 2 3 4 5 6 show ?thesis by blast
qed

text \<open>
  C2 says that register fails with NotFound when the event does not exist, before any other
  check. The id "1" passes the validator of the route (\<open>isInt({ min: 1 })\<close>) and no event
  has it, yet it is not the text of a UUID: the query of line 89 raises, and the handler
  rolls back and answers with status 500 and the error of the database. An unknown id
  that is the text of a UUID gets "Event not found".
\<close>

theorem register_invalid_id:
  "uuid_in ''1'' = None \<and>
   register_handler demo_env ''1'' ''Bob'' ''bob@x.org'' demo_db =
     (Response 500
        (JObj [(''error'', JStr (''invalid input syntax for type uuid: '' @ quoted ''1''))]),
      demo_db) \<and>
   register_handler demo_env ''00000000-0000-0000-0000-000000000009'' ''Bob'' ''bob@x.org''
       demo_db
     = (event_not_found, demo_db)"
  by (simp add: uuid_in_examples register_handler_uuid register_handler_no_uuid
        storage_failure_def) (simp add: demo_defs)

section \<open>Outcomes of cancel\<close>

text \<open>
  The transaction for an id that the database reads as a UUID, under unique emails: the
  three answers are exclusive and decided by the user and the registration alone.
\<close>

lemma cancel_outcomes_uuid:
  assumes "distinct (map u_email (users s))"
  shows "(fst (cancel eventId email s) = user_not_found \<longleftrightarrow>
            \<not> (\<exists>u \<in> set (users s). u_email u = email)) \<and>
         (fst (cancel eventId email s) = not_registered \<longleftrightarrow>
            (\<exists>u \<in> set (users s). u_email u = email \<and>
               \<not> (\<exists>r \<in> set (registrations s). r_user_id r = u_id u \<and> r_event_id r = eventId))) \<and>
         (fst (cancel eventId email s) = registration_cancelled \<longleftrightarrow>
            (\<exists>u \<in> set (users s). u_email u = email \<and>
               (\<exists>r \<in> set (registrations s). r_user_id r = u_id u \<and> r_event_id r = eventId))) \<and>
         (\<forall>u \<in> set (users s). u_email u = email \<longrightarrow>
            fst (cancel eventId email s) = registration_cancelled \<longrightarrow>
            snd (cancel eventId email s) =
              s\<lparr>registrations := filter (\<lambda>r. \<not> (r_user_id r = u_id u \<and> r_event_id r = eventId)) (registrations s)\<rparr>) \<and>
         (fst (cancel eventId email s) \<noteq> registration_cancelled \<longrightarrow> snd (cancel eventId email s) = s) \<and>
         cancel eventId email (s\<lparr>events := evs\<rparr>) =
           (fst (cancel eventId email s), (snd (cancel eventId email s))\<lparr>events := evs\<rparr>)"
proof (cases "\<exists>u \<in> set (users s). u_email u = email")
  case False
  then have "filter (\<lambda>u. u_email u = email) (users s) = []"
    by (simp add: filter_empty_conv)
  with False show ?thesis
    by (simp add: cancel_cases responses)
next
  case True
  then obtain u where u: "u \<in> set (users s)" "u_email u = email" by blast
  with assms have f: "filter (\<lambda>v. u_email v = email) (users s) = [u]"
    using filter_unique_key [of u_email "users s" u] by simp
  have uniq: "v = u" if "v \<in> set (users s)" "u_email v = email" for v
  proof -
    from that have "v \<in> set (filter (\<lambda>v. u_email v = email) (users s))" by simp
    then show ?thesis unfolding f by simp
  qed
  have ev: "cancel eventId email (s\<lparr>events := evs\<rparr>) =
           (fst (cancel eventId email s), (snd (cancel eventId email s))\<lparr>events := evs\<rparr>)"
    by (auto simp: cancel_cases f)
  show ?thesis
  proof (cases "\<exists>r \<in> set (registrations s). r_user_id r = u_id u \<and> r_event_id r = eventId")
    case True
    then have c: "cancel eventId email s = (registration_cancelled,
        s\<lparr>registrations := filter (\<lambda>r. \<not> (r_user_id r = u_id u \<and> r_event_id r = eventId)) (registrations s)\<rparr>)"
      by (simp add: cancel_cases f)
    have 1: "\<exists>u \<in> set (users s). u_email u = email" using u by blast
    have 2: "\<exists>u \<in> set (users s). u_email u = email \<and>
               (\<exists>r \<in> set (registrations s). r_user_id r = u_id u \<and> r_event_id r = eventId)"
      using u True by blast
    have 3: "\<not> (\<exists>u \<in> set (users s). u_email u = email \<and>
               \<not> (\<exists>r \<in> set (registrations s). r_user_id r = u_id u \<and> r_event_id r = eventId))"
      using uniq True by blast
    have 4: "\<forall>v \<in> set (users s). u_email v = email \<longrightarrow>
            fst (cancel eventId email s) = registration_cancelled \<longrightarrow>
            snd (cancel eventId email s) =
              s\<lparr>registrations := filter (\<lambda>r. \<not> (r_user_id r = u_id v \<and> r_event_id r = eventId)) (registrations s)\<rparr>"
      using uniq c by auto
    show ?thesis
      using 1 2 3 4 ev unfolding c by (simp add: responses)
  next
    case False
    then have c: "cancel eventId email s = (not_registered, s)"
      by (auto simp: cancel_cases f)
    have 1: "\<exists>u \<in> set (users s). u_email u = email" using u by blast
    have 2: "\<exists>u \<in> set (users s). u_email u = email \<and>
               \<not> (\<exists>r \<in> set (registrations s). r_user_id r = u_id u \<and> r_event_id r = eventId)"
      using u False by blast
    have 3: "\<not> (\<exists>u \<in> set (users s). u_email u = email \<and>
               (\<exists>r \<in> set (registrations s). r_user_id r = u_id u \<and> r_event_id r = eventId))"
      using uniq False by blast
    show ?thesis
      using 1 2 3 ev unfolding c by (simp add: responses)
  qed
qed

text \<open>
  C4, as the code has it. With unique emails (\<open>email TEXT UNIQUE\<close>), cancel answers
  "User not found" (status 404) exactly when no user has the email. When the id is the text
  of a UUID, it answers "User not registered for this event" exactly when the user exists
  and has no registration for the event, and that answer has status 400, not the 404 of
  the not-found answers; it answers "Registration cancelled" exactly when the user has
  one, and then the rows of that user and event are deleted and all others kept. Whenever
  it does not cancel, the store is unchanged. The handler reads neither a clock nor the
  events table: with any other events table (other times, other capacities, no such event
  at all) the answer is the same, so a registration for a past event is cancelled like any
  other.
\<close>

theorem cancel_outcomes:
  assumes "distinct (map u_email (users s))"
  shows "(fst (cancel_handler idText email s) = user_not_found \<longleftrightarrow>
            \<not> (\<exists>u \<in> set (users s). u_email u = email)) \<and>
         status user_not_found = 404 \<and> status not_registered = 400 \<and>
         (uuid_in idText = Some eventId \<longrightarrow>
            (fst (cancel_handler idText email s) = not_registered \<longleftrightarrow>
               (\<exists>u \<in> set (users s). u_email u = email \<and>
                  \<not> (\<exists>r \<in> set (registrations s).
                         r_user_id r = u_id u \<and> r_event_id r = eventId))) \<and>
            (fst (cancel_handler idText email s) = registration_cancelled \<longleftrightarrow>
               (\<exists>u \<in> set (users s). u_email u = email \<and>
                  (\<exists>r \<in> set (registrations s).
                     r_user_id r = u_id u \<and> r_event_id r = eventId))) \<and>
            (\<forall>u \<in> set (users s). u_email u = email \<longrightarrow>
               fst (cancel_handler idText email s) = registration_cancelled \<longrightarrow>
               snd (cancel_handler idText email s) =
                 s\<lparr>registrations :=
                      filter (\<lambda>r. \<not> (r_user_id r = u_id u \<and> r_event_id r = eventId))
                        (registrations s)\<rparr>)) \<and>
         (fst (cancel_handler idText email s) \<noteq> registration_cancelled \<longrightarrow>
            snd (cancel_handler idText email s) = s) \<and>
         cancel_handler idText email (s\<lparr>events := evs\<rparr>) =
           (fst (cancel_handler idText email s),
            (snd (cancel_handler idText email s))\<lparr>events := evs\<rparr>)"
proof (cases "uuid_in idText")
  case (Some e)
  then have c: "cancel_handler idText email t = cancel e email t" for t
    by (rule cancel_handler_uuid)
  note co = cancel_outcomes_uuid [OF assms, of e email evs]
  have st: "status user_not_found = 404" "status not_registered = 400"
    by (simp_all add: responses)
  show ?thesis
  proof (cases "eventId = e")
    case True
    with co st Some show ?thesis unfolding c by blast
  next
    case False
    with co st Some show ?thesis unfolding c by simp
  qed
next
  case None
  have f: "(filter (\<lambda>u. u_email u = email) (users s) = []) \<longleftrightarrow>
             \<not> (\<exists>u \<in> set (users s). u_email u = email)"
    by (auto simp: filter_empty_conv)
  from None f show ?thesis
    by (simp add: cancel_handler_no_uuid responses)
qed

text \<open>
  Event 2 of the example is past at the time of the example clock; Ann's registration for
  it is cancelled.
\<close>

theorem cancel_outcomes_witness:
  "distinct (map u_email (users demo_db)) \<and>
   uuid_in ''00000000-0000-0000-0000-000000000002'' = Some (e_id (events demo_db ! 1)) \<and>
   e_datetime (events demo_db ! 1) < clock demo_env \<and>
   cancel_handler ''00000000-0000-0000-0000-000000000002'' ''ann@x.org'' demo_db =
     (registration_cancelled,
      demo_db\<lparr>registrations :=
        [\<lparr>r_id = 20, r_user_id = 7, r_event_id = 1, r_registered_at = 100\<rparr>]\<rparr>) \<and>
   cancel_handler ''00000000-0000-0000-0000-000000000002'' ''bob@x.org'' demo_db
     = (user_not_found, demo_db) \<and>
   cancel_handler ''00000000-0000-0000-0000-000000000003'' ''ann@x.org'' demo_db
     = (not_registered, demo_db)"
proof -
  let ?ann = "\<lparr>u_id = 7, u_name = ''Ann'', u_email = ''ann@x.org''\<rparr>"
  let ?two = "''00000000-0000-0000-0000-000000000002''"
  let ?three = "''00000000-0000-0000-0000-000000000003''"
  have d: "distinct (map u_email (users demo_db))"
    by (simp add: demo_db_def)
  have past: "e_datetime (events demo_db ! 1) < clock demo_env"
    and id2: "e_id (events demo_db ! 1) = 2"
    by (simp_all add: demo_db_def demo_env_def)
  have ann: "?ann \<in> set (users demo_db)"
    and a2: "\<exists>u \<in> set (users demo_db). u_email u = ''ann@x.org'' \<and>
               (\<exists>r \<in> set (registrations demo_db). r_user_id r = u_id u \<and> r_event_id r = 2)"
    and a3: "\<exists>u \<in> set (users demo_db). u_email u = ''ann@x.org'' \<and>
               \<not> (\<exists>r \<in> set (registrations demo_db). r_user_id r = u_id u \<and> r_event_id r = 3)"
    and b: "\<not> (\<exists>u \<in> set (users demo_db). u_email u = ''bob@x.org'')"
    by (simp_all add: demo_db_def)
  note t2 = cancel_outcomes [OF d, of ?two "''ann@x.org''" 2]
  from t2 a2 have r2: "fst (cancel_handler ?two ''ann@x.org'' demo_db) = registration_cancelled"
    by (simp add: uuid_in_examples)
  with t2 ann have "snd (cancel_handler ?two ''ann@x.org'' demo_db) =
      demo_db\<lparr>registrations := filter (\<lambda>r. \<not> (r_user_id r = u_id ?ann \<and> r_event_id r = 2))
                 (registrations demo_db)\<rparr>"
    by (simp add: uuid_in_examples)
  then have s2: "snd (cancel_handler ?two ''ann@x.org'' demo_db) =
      demo_db\<lparr>registrations :=
        [\<lparr>r_id = 20, r_user_id = 7, r_event_id = 1, r_registered_at = 100\<rparr>]\<rparr>"
    by (simp add: demo_db_def)
  note tb = cancel_outcomes [OF d, of ?two "''bob@x.org''" 2]
  from tb b have rb: "fst (cancel_handler ?two ''bob@x.org'' demo_db) = user_not_found"
    by blast
  with tb have sb: "snd (cancel_handler ?two ''bob@x.org'' demo_db) = demo_db"
    by (simp add: responses)
  note t3 = cancel_outcomes [OF d, of ?three "''ann@x.org''" 3]
  from t3 a3 have r3: "fst (cancel_handler ?three ''ann@x.org'' demo_db) = not_registered"
    by (simp add: uuid_in_examples)
  with t3 have s3: "snd (cancel_handler ?three ''ann@x.org'' demo_db) = demo_db"
    by (simp add: responses)
  from d past r2 s2 rb sb r3 s3 show ?thesis
    unfolding id2 by (simp add: prod_eq_iff uuid_in_examples)
qed

text \<open>
  C4 as stated fails for Ann, who exists and holds no registration for the id asked. For
  event 3, which she never registered for, the answer has status 400, where the answers
  for an unknown user and an unknown event have status 404. For the id "1", which passes
  the validator of the route and is not the text of a UUID, the \<open>DELETE\<close> raises and the
  answer has status 500.
\<close>

theorem cancel_not_registered_counterexample:
  "cancel_handler ''00000000-0000-0000-0000-000000000003'' ''ann@x.org'' demo_db
     = (not_registered, demo_db) \<and>
   status not_registered = 400 \<and>
   status user_not_found = 404 \<and>
   status event_not_found = 404 \<and>
   uuid_in ''1'' = None \<and>
   cancel_handler ''1'' ''ann@x.org'' demo_db
     = (storage_failure (InvalidUuidText ''1''), demo_db) \<and>
   status (storage_failure (InvalidUuidText ''1'')) = 500"
  by (simp add: uuid_in_examples cancel_handler_uuid cancel_handler_no_uuid responses)
     (simp add: demo_defs responses)

section \<open>The response of a successful register\<close>

text \<open>
  C5, as the code has it. When register inserts a registration (equivalently, when it
  answers with status 201), the response is the object with the single field
  \<open>message: "Registration successful"\<close>. The new row is the last one of the table and has
  the id that the database generated; that id is not part of the response.
\<close>

theorem register_success_response:
  "(registrations (snd (register en eventId name email s)) \<noteq> registrations s \<or>
    status (fst (register en eventId name email s)) = 201) \<longrightarrow>
   fst (register en eventId name email s) =
     Response 201 (JObj [(''message'', JStr ''Registration successful'')]) \<and>
   JUuid (gen_reg_id en) \<notin> set (body_values (fst (register en eventId name email s))) \<and>
   (\<exists>userId. registrations (snd (register en eventId name email s)) =
      registrations s @ [\<lparr>r_id = gen_reg_id en, r_user_id = userId, r_event_id = eventId,
                          r_registered_at = db_now en\<rparr>])"
proof -
  obtain resp s' where r: "register en eventId name email s = (resp, s')"
    by (cases "register en eventId name email s")
  from register_result [OF r] register_status [of en eventId name email s]
  show ?thesis
    unfolding r by (auto simp: registration_successful_def)
qed

theorem register_success_response_witness:
  "registrations (snd (register demo_env 1 ''Bob'' ''bob@x.org'' demo_db))
     \<noteq> registrations demo_db \<and>
   fst (register demo_env 1 ''Bob'' ''bob@x.org'' demo_db) =
     Response 201 (JObj [(''message'', JStr ''Registration successful'')])"
proof -
  have h: "registrations (snd (register demo_env 1 ''Bob'' ''bob@x.org'' demo_db))
             \<noteq> registrations demo_db"
    by (simp add: demo_defs)
  with register_success_response [of demo_env 1 "''Bob''" "''bob@x.org''" demo_db]
  show ?thesis by blast
qed

text \<open>
  C5 as stated fails: Bob's registration gets the id 22, and the response holds the
  message only.
\<close>

theorem register_returns_no_id_counterexample:
  "register demo_env 1 ''Bob'' ''bob@x.org'' demo_db =
     (Response 201 (JObj [(''message'', JStr ''Registration successful'')]),
      demo_db\<lparr>users := users demo_db @ [\<lparr>u_id = 8, u_name = ''Bob'', u_email = ''bob@x.org''\<rparr>],
              registrations := registrations demo_db @
                [\<lparr>r_id = 22, r_user_id = 8, r_event_id = 1, r_registered_at = 1001\<rparr>]\<rparr>) \<and>
   JUuid 22 \<notin> set (body_values (fst (register demo_env 1 ''Bob'' ''bob@x.org'' demo_db)))"
  by (simp add: demo_defs responses)

section \<open>Cancel, then register again\<close>

text \<open>
  C7. In a store with unique emails and unique event ids, let the user with the given email
  hold a registration for an event that is not past and not over its capacity. Then cancel
  succeeds, and a register for the same email and event right after it succeeds too,
  provided the id generated for the new row is not the id of a remaining registration:
  the user found by email is the same, the deleted row leaves no (user, event) pair behind,
  and the count is below the capacity once the row is gone.
\<close>

theorem cancel_then_register:
  assumes emails: "distinct (map u_email (users s))"
    and ids: "distinct (map e_id (events s))"
    and u: "u \<in> set (users s)" "u_email u = email"
    and r: "r \<in> set (registrations s)" "r_user_id r = u_id u" "r_event_id r = eventId"
    and ev: "ev \<in> set (events s)" "e_id ev = eventId"
    and time: "\<not> e_datetime ev < clock en"
    and cap: "reg_count eventId s \<le> e_capacity ev"
    and fresh: "gen_reg_id en \<notin> set (map r_id (registrations (snd (cancel eventId email s))))"
  shows "fst (cancel eventId email s) = registration_cancelled \<and>
         register en eventId name email (snd (cancel eventId email s)) =
           (registration_successful,
            (snd (cancel eventId email s))
              \<lparr>registrations := registrations (snd (cancel eventId email s)) @
                 [\<lparr>r_id = gen_reg_id en, r_user_id = u_id u, r_event_id = eventId,
                   r_registered_at = db_now en\<rparr>]\<rparr>)"
proof -
  let ?match = "\<lambda>r. r_user_id r = u_id u \<and> r_event_id r = eventId"
  let ?t = "s\<lparr>registrations := filter (\<lambda>r. \<not> ?match r) (registrations s)\<rparr>"
  from emails u have fu: "filter (\<lambda>v. u_email v = email) (users s) = [u]"
    using filter_unique_key [of u_email "users s" u] by simp
  from r have "filter ?match (registrations s) \<noteq> []"
    by (auto simp: filter_empty_conv)
  then have c: "cancel eventId email s = (registration_cancelled, ?t)"
    by (simp add: cancel_def delete_registrations_def commit_def fu)
  from ids ev have fe: "filter (\<lambda>e. e_id e = eventId) (events ?t) = [ev]"
    using filter_unique_key [of e_id "events s" ev] by simp
  have "length (filter (\<lambda>r. r_event_id r = eventId) (filter (\<lambda>r. \<not> ?match r) (registrations s)))
          < length (filter (\<lambda>r. r_event_id r = eventId) (registrations s))"
    using r by (intro length_filter_removed [of r]) simp_all
  with cap have count: "reg_count eventId ?t < e_capacity ev"
    by (simp add: reg_count_def)
  have ru: "resolve_user en name email ?t = Inr (u_id u, ?t)"
    by (simp add: resolve_user_def fu)
  have nodup: "filter ?match (registrations ?t) = []"
    by (simp add: filter_empty_conv)
  from fresh have fresh': "gen_reg_id en \<notin> set (map r_id (registrations ?t))"
    unfolding c by simp
  have ins: "insert_registration (gen_reg_id en) (u_id u) eventId (db_now en) ?t =
               Inr (?t\<lparr>registrations := registrations ?t @
                 [\<lparr>r_id = gen_reg_id en, r_user_id = u_id u, r_event_id = eventId,
                   r_registered_at = db_now en\<rparr>]\<rparr>)"
    using fresh' u ev unfolding insert_registration_def by (auto simp: image_iff)
  have "register en eventId name email ?t =
          (registration_successful, ?t\<lparr>registrations := registrations ?t @
                 [\<lparr>r_id = gen_reg_id en, r_user_id = u_id u, r_event_id = eventId,
                   r_registered_at = db_now en\<rparr>]\<rparr>)"
    unfolding register_def fe ru using time count nodup ins
    by (simp add: commit_def)
  then show ?thesis unfolding c by simp
qed

text \<open>Ann cancels her registration for event 1 and registers again, under another name.\<close>

theorem cancel_then_register_witness:
  "fst (cancel 1 ''ann@x.org'' demo_db) = registration_cancelled \<and>
   fst (register demo_env 1 ''Ann B.'' ''ann@x.org'' (snd (cancel 1 ''ann@x.org'' demo_db)))
     = registration_successful \<and>
   registrations
     (snd (register demo_env 1 ''Ann B.'' ''ann@x.org'' (snd (cancel 1 ''ann@x.org'' demo_db))))
     = [\<lparr>r_id = 21, r_user_id = 7, r_event_id = 2, r_registered_at = 100\<rparr>,
        \<lparr>r_id = 22, r_user_id = 7, r_event_id = 1, r_registered_at = 1001\<rparr>]"
proof -
  let ?ann = "\<lparr>u_id = 7, u_name = ''Ann'', u_email = ''ann@x.org''\<rparr>"
  let ?r = "\<lparr>r_id = 20, r_user_id = 7, r_event_id = 1, r_registered_at = 100\<rparr>"
  let ?e1 = "\<lparr>e_id = 1, e_title = ''Talk'', e_datetime = 5000, e_location = ''Hall'',
               e_capacity = 2, e_created_at = 10\<rparr>"
  have c: "snd (cancel 1 ''ann@x.org'' demo_db) =
      demo_db\<lparr>registrations :=
        [\<lparr>r_id = 21, r_user_id = 7, r_event_id = 2, r_registered_at = 100\<rparr>]\<rparr>"
    by (simp add: demo_defs)
  have "fst (cancel 1 ''ann@x.org'' demo_db) = registration_cancelled \<and>
        register demo_env 1 ''Ann B.'' ''ann@x.org'' (snd (cancel 1 ''ann@x.org'' demo_db)) =
          (registration_successful,
           (snd (cancel 1 ''ann@x.org'' demo_db))
             \<lparr>registrations := registrations (snd (cancel 1 ''ann@x.org'' demo_db)) @
                [\<lparr>r_id = gen_reg_id demo_env, r_user_id = u_id ?ann, r_event_id = 1,
                  r_registered_at = db_now demo_env\<rparr>]\<rparr>)"
  proof (rule cancel_then_register [where r = ?r and ev = ?e1])
    show "gen_reg_id demo_env
            \<notin> set (map r_id (registrations (snd (cancel 1 ''ann@x.org'' demo_db))))"
      unfolding c by (simp add: demo_env_def)
  qed (simp_all add: demo_db_def demo_env_def reg_count_def)
  then show ?thesis
    unfolding c by (simp add: demo_env_def)
qed

section \<open>Registering never changes an existing user\<close>

text \<open>
  C9. A register call keeps every row of the users table as it was, name included and
  whatever name the request carries: the old table is a prefix of the new one. When the
  email belongs to an existing user, the users table is the same table afterwards.
\<close>

theorem register_keeps_users:
  "(email \<in> set (map u_email (users s)) \<longrightarrow>
      users (snd (register en eventId name email s)) = users s) \<and>
   take (length (users s)) (users (snd (register en eventId name email s))) = users s"
  by (auto simp: register_def rollback_def commit_def insert_registration_def
         split: list.splits if_splits sum.splits prod.splits dest!: resolve_user_users)

text \<open>Ann registers as Anna: her row keeps the name Ann.\<close>

theorem register_keeps_users_witness:
  "''ann@x.org'' \<in> set (map u_email (users demo_db)) \<and>
   users (snd (register demo_env 1 ''Anna'' ''ann@x.org'' demo_db)) = users demo_db \<and>
   map u_name (users (snd (register (demo_env\<lparr>gen_reg_id := 23\<rparr>) 2 ''Anna'' ''ann@x.org''
                 (snd (register demo_env 1 ''Bob'' ''bob@x.org'' demo_db))))) = [''Ann'', ''Bob'']"
proof -
  have h: "''ann@x.org'' \<in> set (map u_email (users demo_db))"
    by (simp add: demo_db_def)
  with register_keeps_users [of "''ann@x.org''" demo_db demo_env 1 "''Anna''"]
  have 1: "users (snd (register demo_env 1 ''Anna'' ''ann@x.org'' demo_db)) = users demo_db"
    by blast
  let ?s = "snd (register demo_env 1 ''Bob'' ''bob@x.org'' demo_db)"
  have u: "users ?s = [\<lparr>u_id = 7, u_name = ''Ann'', u_email = ''ann@x.org''\<rparr>,
                       \<lparr>u_id = 8, u_name = ''Bob'', u_email = ''bob@x.org''\<rparr>]"
    by (simp add: demo_defs)
  then have "''ann@x.org'' \<in> set (map u_email (users ?s))" by simp
  with register_keeps_users [of "''ann@x.org''" ?s "demo_env\<lparr>gen_reg_id := 23\<rparr>" 2 "''Anna''"]
  have "users (snd (register (demo_env\<lparr>gen_reg_id := 23\<rparr>) 2 ''Anna'' ''ann@x.org'' ?s)) = users ?s"
    by blast
  with u have 2: "map u_name (users (snd (register (demo_env\<lparr>gen_reg_id := 23\<rparr>) 2 ''Anna''
                    ''ann@x.org'' ?s))) = [''Ann'', ''Bob'']"
    by simp
  from h 1 2 show ?thesis by blast
qed

section \<open>No duplicate for a user created in the transaction\<close>

text \<open>
  C10. When every registration refers to a stored user (the foreign key of \<open>user_id\<close>) and
  no user has the request's email, register never answers "Already registered": the user
  it creates has an id that no user had, so no registration refers to it.
\<close>

theorem fresh_user_no_duplicate:
  assumes "\<forall>r \<in> set (registrations s). r_user_id r \<in> set (map u_id (users s))"
    and "email \<notin> set (map u_email (users s))"
  shows "fst (register en eventId name email s) \<noteq> already_registered"
  using assms
  by (auto simp: register_def rollback_def commit_def responses filter_empty_conv
         split: list.splits if_splits sum.splits prod.splits dest!: resolve_user_users)

theorem fresh_user_no_duplicate_witness:
  "set (map r_user_id (registrations demo_db)) \<subseteq> set (map u_id (users demo_db)) \<and>
   ''bob@x.org'' \<notin> set (map u_email (users demo_db)) \<and>
   fst (register demo_env 1 ''Bob'' ''bob@x.org'' demo_db) \<noteq> already_registered"
proof -
  have fk: "\<forall>r \<in> set (registrations demo_db). r_user_id r \<in> set (map u_id (users demo_db))"
    and new: "''bob@x.org'' \<notin> set (map u_email (users demo_db))"
    by (simp_all add: demo_db_def)
  have sub: "set (map r_user_id (registrations demo_db)) \<subseteq> set (map u_id (users demo_db))"
    by (simp add: demo_db_def)
  from fresh_user_no_duplicate [OF fk new, of demo_env 1 "''Bob''"] sub new
  show ?thesis by blast
qed

section \<open>Statistics of an event\<close>

text \<open>
  C6, as the code has it, for an id that is the text of a UUID. When no event has the id,
  getStats answers "Event not found".
  For the stored event with a capacity above zero and fewer than \<open>2^31\<close> registrations
  (the count is a 32-bit integer), it answers with the count as \<open>totalRegistrations\<close>,
  capacity minus count as \<open>remainingCapacity\<close>, and as \<open>percentUsed\<close> a numeral with two
  decimals that is at most 0.005 away from the exact \<open>100 * count / capacity\<close>: the
  percentage rounded to two decimal places, where at an exact tie (a third decimal of 5
  and nothing after it) the double arithmetic decides between the two neighbours.
\<close>

theorem getStats_result:
  assumes u: "uuid_in idText = Some eventId"
  shows
  "(filter (\<lambda>e. e_id e = eventId) (events s) = [] \<longrightarrow> getStats idText s = event_not_found) \<and>
   (filter (\<lambda>e. e_id e = eventId) (events s) = ev # evs \<and> 0 < e_capacity ev \<and>
    reg_count eventId s < 2 ^ 31 \<longrightarrow>
      (\<exists>n. getStats idText s =
             Response 200
               (JObj [(''totalRegistrations'', JNum (reg_count eventId s)),
                      (''remainingCapacity'', JNum (e_capacity ev - reg_count eventId s)),
                      (''percentUsed'', JStr (two_decimals n))]) \<and>
           \<bar>of_nat n - 10000 * of_int (reg_count eventId s) / of_int (e_capacity ev)\<bar>
             \<le> (1 / 2 :: rat)))"
proof (intro conjI impI)
  assume "filter (\<lambda>e. e_id e = eventId) (events s) = []"
  then show "getStats idText s = event_not_found"
    by (simp add: getStats_def u)
next
  assume h: "filter (\<lambda>e. e_id e = eventId) (events s) = ev # evs \<and> 0 < e_capacity ev \<and>
    reg_count eventId s < 2 ^ 31"
  let ?t = "reg_count eventId s" and ?c = "e_capacity ev"
  let ?y = "fl (fl (of_int ?t / of_int ?c) * 100)"
  let ?n = "\<lfloor>?y * 100 + 1 / 2\<rfloor>"
  have "0 \<le> ?t" by (simp add: reg_count_def)
  with h have p: "0 \<le> ?y \<and> 0 \<le> ?n \<and> \<bar>of_int ?n - 10000 * of_int ?t / of_int ?c\<bar> \<le> (1 / 2 :: rat)"
    by (intro percent_nearest) simp_all
  from h have c0: "?c \<noteq> 0" by simp
  from p have y: "\<not> ?y < 0" by simp
  have "toFixed2 (js_mul (js_div ?t ?c) 100) = two_decimals (nat ?n)"
    using c0 y by (simp add: js_div_def)
  with h have "getStats idText s =
             Response 200
               (JObj [(''totalRegistrations'', JNum ?t),
                      (''remainingCapacity'', JNum (?c - ?t)),
                      (''percentUsed'', JStr (two_decimals (nat ?n)))])"
    by (simp add: getStats_def Let_def u)
  moreover from p have "\<bar>of_nat (nat ?n) - 10000 * of_int ?t / of_int ?c\<bar> \<le> (1 / 2 :: rat)"
    by simp
  ultimately show "\<exists>n. getStats idText s =
             Response 200
               (JObj [(''totalRegistrations'', JNum ?t),
                      (''remainingCapacity'', JNum (?c - ?t)),
                      (''percentUsed'', JStr (two_decimals n))]) \<and>
           \<bar>of_nat n - 10000 * of_int ?t / of_int ?c\<bar> \<le> (1 / 2 :: rat)"
    by blast
qed

text \<open>
  Three registrations for an event of capacity 10: the count is 3, 7 places remain and the
  percentage is "30.00", since 3000 is the only number of hundredths within one half of
  the exact value.
\<close>

theorem getStats_result_witness:
  "uuid_in ''00000000-0000-0000-0000-000000000001'' = Some 1 \<and>
   getStats ''00000000-0000-0000-0000-000000000009'' (run three_registrations (filled_db 10 0))
     = event_not_found \<and>
   reg_count 1 (run three_registrations (filled_db 10 0)) = 3 \<and>
   getStats ''00000000-0000-0000-0000-000000000001'' (run three_registrations (filled_db 10 0)) =
     Response 200 (JObj [(''totalRegistrations'', JNum 3), (''remainingCapacity'', JNum 7),
                         (''percentUsed'', JStr ''30.00'')])"
proof -
  let ?s = "run three_registrations (filled_db 10 0)"
  let ?ev = "\<lparr>e_id = 1, e_title = ''Talk'', e_datetime = 5000, e_location = ''Hall'',
               e_capacity = 10, e_created_at = 10\<rparr>"
  have f9: "filter (\<lambda>e. e_id e = 9) (events ?s) = []"
    and f1: "filter (\<lambda>e. e_id e = 1) (events ?s) = ?ev # []"
    by (simp_all add: run_events filled_db_def)
  have c: "reg_count 1 ?s = 3"
    by (simp add: reg_count_def run_three)
  from getStats_result [OF uuid_in_examples(5), of ?s] f9
  have 1: "getStats ''00000000-0000-0000-0000-000000000009'' ?s = event_not_found" by blast
  from getStats_result [OF uuid_in_examples(2), of ?s ?ev "[]"] f1 c
  obtain n where g: "getStats ''00000000-0000-0000-0000-000000000001'' ?s =
      Response 200 (JObj [(''totalRegistrations'', JNum 3), (''remainingCapacity'', JNum 7),
                          (''percentUsed'', JStr (two_decimals n))])"
    and n: "\<bar>of_nat n - 3000\<bar> \<le> (1 / 2 :: rat)"
    by auto
  from n have "(of_nat n :: rat) < 3001" "(2999 :: rat) < of_nat n"
    by linarith+
  then have "(of_nat n :: rat) < of_nat 3001" "(of_nat 2999 :: rat) < of_nat n"
    by (simp_all del: of_nat_less_iff)
  then have "n < 3001" "2999 < n"
    by (simp_all only: of_nat_less_iff)
  then have "n = 3000" by simp
  with g 1 c show ?thesis by (simp add: two_decimals_3000 uuid_in_examples)
qed

text \<open>
  C6 as stated fails at a tie. With 23 registrations for a capacity of 160 the exact
  percentage is 14.375, which rounds to 14.38 (half up, and half to even as well); the
  double computed by \<open>(23 / 160) * 100\<close> is 14.374999999999998 and the handler answers
  "14.37".
\<close>

theorem percent_tie_counterexample:
  "getStats ''00000000-0000-0000-0000-000000000001'' (filled_db 160 23) =
     Response 200 (JObj [(''totalRegistrations'', JNum 23), (''remainingCapacity'', JNum 137),
                         (''percentUsed'', JStr ''14.37'')]) \<and>
   (23 / 160 * 100 :: rat) = 14375 / 1000 \<and>
   percent_spec 23 160 = ''14.38''"
  by code_simp

section \<open>Reading events\<close>

text \<open>
  C8 says that get returns the fields of a stored event and list the stored events by
  time. Both handlers select the column \<open>updated_at\<close>, which \<open>CREATE TABLE events\<close> of
  init.sql does not declare, so the database rejects both queries and the handlers answer
  with status 500: for event 1 of the example store, which exists, and for the list.
\<close>

theorem getEvent_undefined_column:
  "e_id (events demo_db ! 0) = 1 \<and>
   getEvent 1 demo_db =
     Response 500
       (JObj [(''error'', JStr (''column '' @ quoted ''updated_at'' @ '' does not exist''))]) \<and>
   listEvents demo_db =
     Response 500
       (JObj [(''error'', JStr (''column '' @ quoted ''updated_at'' @ '' does not exist''))])"
  by (simp add: getEvent_def listEvents_def select_events_def events_columns_def
        storage_failure_def demo_db_def)

end
